theory Spec2Isabelle
  imports Complex_Main "HOL-Library.Word" "HOL-Library.Monad_Syntax"
begin

section \<open>JavaScript values\<close>

text \<open>
  A JavaScript string is a sequence of UTF-16 code units.  \<open>js\<close> embeds an ASCII
  literal of the source.
\<close>

type_synonym jschar = "16 word"
type_synonym jsstring = "jschar list"

definition js :: "string \<Rightarrow> jsstring" where
  "js s = map of_char s"

text \<open>
  Data that crosses a step boundary or comes back from a provider is JSON-like: no
  functions, no cycles.  A number is a finite double, read as the rational it denotes (the
  schema only compares numbers); an object is its list of own properties in insertion order.
\<close>

datatype jsval =
    JUndefined
  | JNull
  | JBool bool
  | JNum rat
  | JStr jsstring
  | JArr "jsval list"
  | JObj "(jsstring \<times> jsval) list"

text \<open>The errors the pipeline can end with; the source throws \<open>Error\<close> with the message quoted.\<close>

datatype error =
    NoAudioAvailable \<comment> \<open>"No audio-only formats available"\<close>
  | AcquisitionFailed \<comment> \<open>\<open>getInfo\<close>, the audio stream or the write stream failed\<close>
  | MissingInputFile \<comment> \<open>"Video file name is required for transcription"\<close>
  | TranscriptionFailed \<comment> \<open>the transcription request itself threw\<close>
  | TranscriptionProviderError \<comment> \<open>"No transcription results found"\<close>
  | EmptyTranscript \<comment> \<open>"Transcription failed or returned empty transcript for video ..."\<close>
  | GenerationFailed \<comment> \<open>the generative model's request threw\<close>
  | SchemaValidationError \<comment> \<open>\<open>generateObject\<close>: the response does not match the schema\<close>
  | TypeError \<comment> \<open>the JavaScript runtime's own TypeError\<close>
  | FsError \<comment> \<open>the file system's ENOENT, ENOTDIR, EISDIR or EEXIST\<close>

text \<open>\<open>!v\<close> is \<open>\<not> truthy v\<close>.\<close>

fun truthy :: "jsval \<Rightarrow> bool" where
  "truthy JUndefined = False"
| "truthy JNull = False"
| "truthy (JBool b) = b"
| "truthy (JNum q) = (q \<noteq> 0)"
| "truthy (JStr s) = (s \<noteq> [])"
| "truthy (JArr xs) = True"
| "truthy (JObj kvs) = True"

text \<open>
  \<open>v.name\<close>, for a name that no built-in prototype defines (\<open>fullTranscript\<close>,
  \<open>transcriptFileName\<close>): a TypeError on \<open>undefined\<close> and \<open>null\<close>, the own property
  of an object, \<open>undefined\<close> everywhere else.
\<close>

fun getProp :: "jsval \<Rightarrow> jsstring \<Rightarrow> error + jsval" where
  "getProp JUndefined k = Inl TypeError"
| "getProp JNull k = Inl TypeError"
| "getProp (JObj kvs) k = Inr (case map_of kvs k of None \<Rightarrow> JUndefined | Some v \<Rightarrow> v)"
| "getProp v k = Inr JUndefined"

text \<open>
  \<open>String.prototype.trim\<close> removes WhiteSpace and LineTerminator code units from both
  ends: TAB, VT, FF, SP, NBSP, ZWNBSP, the Unicode space separators, and LF, CR, LS, PS.
\<close>

definition whiteSpace :: "jschar list" where
  "whiteSpace = [0x0009, 0x000B, 0x000C, 0x0020, 0x00A0, 0xFEFF, 0x1680,
     0x2000, 0x2001, 0x2002, 0x2003, 0x2004, 0x2005, 0x2006, 0x2007, 0x2008, 0x2009, 0x200A,
     0x202F, 0x205F, 0x3000]"

definition lineTerminator :: "jschar list" where
  "lineTerminator = [0x000A, 0x000D, 0x2028, 0x2029]"

definition isSpace :: "jschar \<Rightarrow> bool" where
  "isSpace c = (c \<in> set (whiteSpace @ lineTerminator))"

definition trim :: "jsstring \<Rightarrow> jsstring" where
  "trim s = rev (dropWhile isSpace (rev (dropWhile isSpace s)))"

text \<open>
  \<open>Array.prototype.sort(cmp)\<close> is a stable sort: for a consistent comparator the result
  does not depend on the algorithm, so insertion from the right stands for it.  An element
  goes before the first one it does not compare greater than.
\<close>

fun insert_cmp :: "('a \<Rightarrow> 'a \<Rightarrow> int) \<Rightarrow> 'a \<Rightarrow> 'a list \<Rightarrow> 'a list" where
  "insert_cmp cmp x [] = [x]"
| "insert_cmp cmp x (y # ys) =
     (if cmp x y \<le> 0 then x # y # ys else y # insert_cmp cmp x ys)"

definition array_sort :: "('a \<Rightarrow> 'a \<Rightarrow> int) \<Rightarrow> 'a list \<Rightarrow> 'a list" where
  "array_sort cmp xs = foldr (insert_cmp cmp) xs []"

text \<open>
  A \<open>Record<string, number>\<close> whose keys are not array indices keeps them in insertion
  order: \<open>acc[k]\<close> reads, \<open>acc[k] = v\<close> overwrites in place or appends.
\<close>

definition obj_get :: "('k \<times> 'v) list \<Rightarrow> 'k \<Rightarrow> 'v option" where
  "obj_get acc k = map_of acc k"

fun obj_set :: "('k \<times> 'v) list \<Rightarrow> 'k \<Rightarrow> 'v \<Rightarrow> ('k \<times> 'v) list" where
  "obj_set [] k v = [(k, v)]"
| "obj_set (p # ps) k v = (if fst p = k then (k, v) # ps else p # obj_set ps k v)"

section \<open>The schema of the extracted script\<close>

datatype purpose =
    hook
  | problem_identification
  | solution_introduction
  | credibility_building
  | social_proof
  | objection_handling
  | urgency_scarcity
  | call_to_action
  | bonus_offer
  | guarantee
  | summary_recap

datatype tone =
    urgent
  | empathetic
  | authoritative
  | conversational
  | persuasive
  | educational
  | emotional
  | logical
  | testimonial
  | reassuring

definition purpose_values :: "(jsstring \<times> purpose) list" where
  "purpose_values =
    [(js ''hook'', hook),
     (js ''problem_identification'', problem_identification),
     (js ''solution_introduction'', solution_introduction),
     (js ''credibility_building'', credibility_building),
     (js ''social_proof'', social_proof),
     (js ''objection_handling'', objection_handling),
     (js ''urgency_scarcity'', urgency_scarcity),
     (js ''call_to_action'', call_to_action),
     (js ''bonus_offer'', bonus_offer),
     (js ''guarantee'', guarantee),
     (js ''summary_recap'', summary_recap)]"

definition tone_values :: "(jsstring \<times> tone) list" where
  "tone_values =
    [(js ''urgent'', urgent),
     (js ''empathetic'', empathetic),
     (js ''authoritative'', authoritative),
     (js ''conversational'', conversational),
     (js ''persuasive'', persuasive),
     (js ''educational'', educational),
     (js ''emotional'', emotional),
     (js ''logical'', logical),
     (js ''testimonial'', testimonial),
     (js ''reassuring'', reassuring)]"

record timestamps =
  ts_start :: jsstring
  ts_end :: jsstring

record vslSection =
  title :: jsstring
  content :: jsstring
  purpose :: purpose
  tone :: tone
  keyPoints :: "jsstring list"
  timestamps :: "timestamps option"

record effectiveness =
  strengths :: "jsstring list"
  improvements :: "jsstring list"
  overallRating :: rat

record vslScript =
  overallStrategy :: jsstring
  targetAudience :: jsstring
  mainOffer :: jsstring
  sections :: "vslSection list"
  effectiveness :: effectiveness

text \<open>
  The zod combinators the schema is built from, as parsers of a raw value: \<open>None\<close> is a
  validation issue.  \<open>z.object\<close> takes an object only (not \<open>null\<close>, not an array), reads a
  missing key as \<open>undefined\<close> and drops the keys it does not know; \<open>z.enum\<close> takes exactly
  the listed strings; \<open>z.number().min(lo).max(hi)\<close> takes a number with \<open>lo \<le> n \<le> hi\<close>;
  \<open>.nullable()\<close> adds \<open>null\<close>.
\<close>

definition field :: "(jsstring \<times> jsval) list \<Rightarrow> string \<Rightarrow> jsval" where
  "field kvs k = (case map_of kvs (js k) of None \<Rightarrow> JUndefined | Some v \<Rightarrow> v)"

fun z_object :: "jsval \<Rightarrow> (jsstring \<times> jsval) list option" where
  "z_object (JObj kvs) = Some kvs"
| "z_object v = None"

fun z_string :: "jsval \<Rightarrow> jsstring option" where
  "z_string (JStr s) = Some s"
| "z_string v = None"

fun z_enum :: "(jsstring \<times> 'a) list \<Rightarrow> jsval \<Rightarrow> 'a option" where
  "z_enum values (JStr s) = map_of values s"
| "z_enum values v = None"

fun z_number_min_max :: "rat \<Rightarrow> rat \<Rightarrow> jsval \<Rightarrow> rat option" where
  "z_number_min_max lo hi (JNum n) = (if lo \<le> n \<and> n \<le> hi then Some n else None)"
| "z_number_min_max lo hi v = None"

fun z_array :: "(jsval \<Rightarrow> 'a option) \<Rightarrow> jsval \<Rightarrow> 'a list option" where
  "z_array p (JArr xs) = those (map p xs)"
| "z_array p v = None"

fun z_nullable :: "(jsval \<Rightarrow> 'a option) \<Rightarrow> jsval \<Rightarrow> 'a option option" where
  "z_nullable p JNull = Some None"
| "z_nullable p v = map_option Some (p v)"

definition timestampsSchema :: "jsval \<Rightarrow> timestamps option" where
  "timestampsSchema v = do {
     kvs \<leftarrow> z_object v;
     s \<leftarrow> z_string (field kvs ''start'');
     e \<leftarrow> z_string (field kvs ''end'');
     Some \<lparr>ts_start = s, ts_end = e\<rparr>
   }"

definition vslSectionSchema :: "jsval \<Rightarrow> vslSection option" where
  "vslSectionSchema v = do {
     kvs \<leftarrow> z_object v;
     t \<leftarrow> z_string (field kvs ''title'');
     c \<leftarrow> z_string (field kvs ''content'');
     p \<leftarrow> z_enum purpose_values (field kvs ''purpose'');
     tn \<leftarrow> z_enum tone_values (field kvs ''tone'');
     ks \<leftarrow> z_array z_string (field kvs ''keyPoints'');
     ts \<leftarrow> z_nullable timestampsSchema (field kvs ''timestamps'');
     Some \<lparr>title = t, content = c, purpose = p, tone = tn, keyPoints = ks, timestamps = ts\<rparr>
   }"

definition effectivenessSchema :: "jsval \<Rightarrow> effectiveness option" where
  "effectivenessSchema v = do {
     kvs \<leftarrow> z_object v;
     ss \<leftarrow> z_array z_string (field kvs ''strengths'');
     is \<leftarrow> z_array z_string (field kvs ''improvements'');
     r \<leftarrow> z_number_min_max 1 10 (field kvs ''overallRating'');
     Some \<lparr>strengths = ss, improvements = is, overallRating = r\<rparr>
   }"

definition vslScriptSchema :: "jsval \<Rightarrow> vslScript option" where
  "vslScriptSchema v = do {
     kvs \<leftarrow> z_object v;
     st \<leftarrow> z_string (field kvs ''overallStrategy'');
     ta \<leftarrow> z_string (field kvs ''targetAudience'');
     mo \<leftarrow> z_string (field kvs ''mainOffer'');
     secs \<leftarrow> z_array vslSectionSchema (field kvs ''sections'');
     eff \<leftarrow> effectivenessSchema (field kvs ''effectiveness'');
     Some \<lparr>overallStrategy = st, targetAudience = ta, mainOffer = mo, sections = secs,
       effectiveness = eff\<rparr>
   }"

section \<open>The world outside: files, providers, the clock\<close>

record metadata =
  md_videoId :: jsstring
  analysisDate :: jsstring
  transcriptSource :: jsval

record statistics =
  totalSections :: nat
  purposeBreakdown :: "(purpose \<times> nat) list"
  toneBreakdown :: "(tone \<times> nat) list"

record vslAnalysis =
  a_metadata :: metadata
  a_vslScript :: vslScript
  a_statistics :: statistics

text \<open>
  What a file holds: the audio payload, a transcript as text, or the pretty-printed
  \<open>JSON.stringify\<close> of an analysis, kept as the value it serialises.
\<close>

datatype content =
    Audio "8 word list"
  | Text jsstring
  | Json vslAnalysis

text \<open>The requests sent to the external providers, in order; the argument is what was sent.\<close>

datatype call =
    GetInfo jsstring \<comment> \<open>\<open>ytdl.getInfo(videoUrl)\<close>\<close>
  | AudioStream jsstring \<comment> \<open>\<open>ytdl(videoUrl, ...)\<close>\<close>
  | TranscribeFile jsstring \<comment> \<open>\<open>deepgram.listen.prerecorded.transcribeFile\<close> of the file\<close>
  | GenerateObject jsstring \<comment> \<open>\<open>generateObject\<close>, with the transcript put in the prompt\<close>

text \<open>
  A path names a file or a directory by its segments, as POSIX resolves it where there are
  no symbolic links: from the root or from the working directory, empty and \<open>.\<close>
  segments dropped, \<open>..\<close> stepping up (and kept where a relative path climbs above
  the working directory).
\<close>

type_synonym path = "bool \<times> jsstring list"

fun splitPath :: "jsstring \<Rightarrow> jsstring list" where
  "splitPath [] = [[]]"
| "splitPath (c # cs) =
     (if c = 0x2F then [] # splitPath cs
      else case splitPath cs of [] \<Rightarrow> [[c]] | s # ss \<Rightarrow> (c # s) # ss)"

definition walk :: "bool \<Rightarrow> jsstring list \<Rightarrow> jsstring \<Rightarrow> jsstring list" where
  "walk absolute here seg =
     (if seg = [] \<or> seg = js ''.'' then here
      else if seg = js ''..'' then
        (if here = [] then (if absolute then [] else [seg])
         else if last here = js ''..'' then here @ [seg]
         else butlast here)
      else here @ [seg])"

definition resolve :: "jsstring \<Rightarrow> path" where
  "resolve p = (take 1 p = js ''/'', foldl (walk (take 1 p = js ''/'')) [] (splitPath p))"

definition parent :: "path \<Rightarrow> path" where
  "parent p = (fst p, butlast (snd p))"

text \<open>The directories from the first segment down to the path itself.\<close>

definition ancestors :: "path \<Rightarrow> path list" where
  "ancestors p = map (\<lambda>n. (fst p, take n (snd p))) [1..<Suc (length (snd p))]"

record world =
  files :: "path \<rightharpoonup> content"
  dirs :: "path set"
  calls :: "call list"
  clock :: jsstring \<comment> \<open>\<open>new Date().toISOString()\<close>\<close>

record videoFormat =
  hasAudio :: bool
  hasVideo :: bool
  audioBitrate :: "nat option" \<comment> \<open>kbps from the provider's format table, or missing\<close>
  container :: "jsstring option"

record videoInfo =
  videoDetails_title :: jsstring
  formats :: "videoFormat list"

text \<open>
  The libraries the steps call.  Node's \<open>path\<close> functions are taken as they are; a
  provider answers a request with a result or an error.  The audio stream delivers bytes
  and may end in an error (of the stream or of the file being written); the transcription
  result is \<open>null\<close> or its channels, each the transcripts of its alternatives; the model's
  response is the raw object before validation.
\<close>

record env =
  path_join :: "jsstring \<Rightarrow> jsstring \<Rightarrow> jsstring"
  path_basename :: "jsstring \<Rightarrow> jsstring \<Rightarrow> jsstring"
  path_extname :: "jsstring \<Rightarrow> jsstring"
  ytdl_getInfo :: "jsstring \<Rightarrow> error + videoInfo"
  ytdl_stream :: "jsstring \<Rightarrow> 8 word list \<times> error option"
  transcribeFile :: "jsstring \<Rightarrow> content option \<Rightarrow> error + jsstring list list option"
  model_response :: "jsstring \<Rightarrow> error + jsval"

text \<open>
  The file system, without permissions or quotas.  The root, the working directory and the
  directories above it are there; any other directory is there once made.  Writing a file
  (\<open>fs.writeFileSync\<close>, and the opening of \<open>fs.createWriteStream\<close>) fails when the
  path names a directory or when the directory it lies in is missing: nothing is written
  then.  \<open>mkdirSync\<close> is called with \<open>recursive: true\<close>: it makes every missing
  directory on the way and fails only where a file is in the way.
\<close>

definition isDirectory :: "world \<Rightarrow> path \<Rightarrow> bool" where
  "isDirectory w p = (snd p = [] \<or> last (snd p) = js ''..'' \<or> p \<in> dirs w)"

definition existsSync :: "world \<Rightarrow> jsstring \<Rightarrow> bool" where
  "existsSync w p = (isDirectory w (resolve p) \<or> resolve p \<in> dom (files w))"

definition mkdirSync :: "world \<Rightarrow> jsstring \<Rightarrow> error + world" where
  "mkdirSync w p =
     (if \<exists>d\<in>set (ancestors (resolve p)). d \<in> dom (files w) then Inl FsError
      else Inr (w\<lparr>dirs := dirs w \<union> set (ancestors (resolve p))\<rparr>))"

definition writeFileSync :: "world \<Rightarrow> jsstring \<Rightarrow> content \<Rightarrow> error + world" where
  "writeFileSync w p c =
     (if take 1 (rev p) = js ''/'' \<or> isDirectory w (resolve p) then Inl FsError
      else if \<not> isDirectory w (parent (resolve p)) then Inl FsError
      else Inr (w\<lparr>files := (files w)(resolve p \<mapsto> c)\<rparr>))"

definition unlinkSync :: "world \<Rightarrow> jsstring \<Rightarrow> error + world" where
  "unlinkSync w p =
     (if files w (resolve p) = None then Inl FsError
      else Inr (w\<lparr>files := (files w)(resolve p := None)\<rparr>))"

text \<open>\<open>if (!fs.existsSync(dir)) fs.mkdirSync(dir, { recursive: true })\<close>, as each step has it.\<close>

definition ensureDir :: "world \<Rightarrow> jsstring \<Rightarrow> error + world" where
  "ensureDir w dir = (if \<not> existsSync w dir then mkdirSync w dir else Inr w)"

definition request :: "world \<Rightarrow> call \<Rightarrow> world" where
  "request w c = w\<lparr>calls := calls w @ [c]\<rparr>"

section \<open>Acquisition\<close>

text \<open>
  The title with everything but \<open>\w\<close>, \<open>\s\<close> and \<open>-\<close> removed, then every run of
  whitespace replaced by one underscore.
\<close>

definition isWord :: "jschar \<Rightarrow> bool" where
  "isWord c = ((0x41 \<le> c \<and> c \<le> 0x5A) \<or> (0x61 \<le> c \<and> c \<le> 0x7A)
     \<or> (0x30 \<le> c \<and> c \<le> 0x39) \<or> c = 0x5F)"

function collapseSpaces :: "jsstring \<Rightarrow> jsstring" where
  "collapseSpaces [] = []"
| "collapseSpaces (c # cs) =
     (if isSpace c then 0x5F # collapseSpaces (dropWhile isSpace cs)
      else c # collapseSpaces cs)"
  by pat_completeness auto
termination
  by (relation "measure length") (auto simp: length_dropWhile_le less_Suc_eq_le)

definition sanitizeTitle :: "jsstring \<Rightarrow> jsstring" where
  "sanitizeTitle t = collapseSpaces (filter (\<lambda>c. isWord c \<or> isSpace c \<or> c = 0x2D) t)"

text \<open>
  Lines 110 to 121: the audio-only formats, sorted by \<open>(b.audioBitrate || 0) -
  (a.audioBitrate || 0)\<close>, and the first of them.
\<close>

definition bitrateOrZero :: "videoFormat \<Rightarrow> nat" where
  "bitrateOrZero f = (case audioBitrate f of None \<Rightarrow> 0 | Some b \<Rightarrow> b)"

definition audioFormats :: "videoFormat list \<Rightarrow> videoFormat list" where
  "audioFormats fs = filter (\<lambda>format. hasAudio format \<and> \<not> hasVideo format) fs"

definition bestAudioFormat :: "videoFormat list \<Rightarrow> error + videoFormat" where
  "bestAudioFormat fs =
     (if length (audioFormats fs) = 0 then Inl NoAudioAvailable
      else case array_sort (\<lambda>a b. int (bitrateOrZero b) - int (bitrateOrZero a))
                  (audioFormats fs) of
             [] \<Rightarrow> Inl TypeError
           | best # rest \<Rightarrow> Inr best)"

definition downloadVideo :: "env \<Rightarrow> jsstring \<Rightarrow> world \<Rightarrow> (error + jsstring) \<times> world" where
  "downloadVideo e videoId w =
     (let outputDir = js ''./video/''
      in case ensureDir w outputDir of
           Inl err \<Rightarrow> (Inl err, w)
         | Inr w1 \<Rightarrow>
             (let videoUrl = js ''https://www.youtube.com/watch?v='' @ videoId;
                  w2 = request w1 (GetInfo videoUrl)
              in case ytdl_getInfo e videoUrl of
                   Inl err \<Rightarrow> (Inl err, w2)
                 | Inr info \<Rightarrow>
                     (case bestAudioFormat (formats info) of
                        Inl err \<Rightarrow> (Inl err, w2)
                      | Inr best \<Rightarrow>
                          (let title = sanitizeTitle (videoDetails_title info);
                               ext = (case container best of
                                        None \<Rightarrow> js ''webm''
                                      | Some c \<Rightarrow> if c = [] then js ''webm'' else c);
                               fileName = title @ js ''_'' @ videoId @ js ''.'' @ ext;
                               filePath = path_join e outputDir fileName;
                               w3 = request w2 (AudioStream videoUrl)
                           in case writeFileSync w3 filePath
                                     (Audio (fst (ytdl_stream e videoUrl))) of
                                Inl err \<Rightarrow> (Inl err, w3)
                              | Inr w4 \<Rightarrow>
                                  (case snd (ytdl_stream e videoUrl) of
                                     Some err \<Rightarrow> (Inl err, w4)
                                   | None \<Rightarrow> (Inr filePath, w4))))))"

record withVideoId =
  videoId :: jsstring

record downloadIn = withVideoId +
  exists :: bool
  videoRecord :: jsval
  keywords' :: "jsstring list option"

record downloadOut = downloadIn +
  videoFileName :: "jsstring option"

text \<open>
  The fresh path returns \<open>{...result, videoId, exists: false, keywords}\<close>: no
  \<open>videoRecord\<close> key, which reads as \<open>undefined\<close>.
\<close>

definition downloadVideoStep :: "env \<Rightarrow> downloadIn \<Rightarrow> world \<Rightarrow> (error + downloadOut) \<times> world" where
  "downloadVideoStep e inputData w =
     (if exists inputData then
        (Inr \<lparr>videoId = videoId inputData, exists = True,
              videoRecord = videoRecord inputData, keywords' = keywords' inputData,
              videoFileName = None\<rparr>, w)
      else case downloadVideo e (videoId inputData) w of
             (Inl err, w') \<Rightarrow> (Inl err, w')
           | (Inr filePath, w') \<Rightarrow>
               (Inr \<lparr>videoId = videoId inputData, exists = False,
                     videoRecord = JUndefined, keywords' = keywords' inputData,
                     videoFileName = Some filePath\<rparr>, w'))"

section \<open>Transcription\<close>

text \<open>
  \<open>result?.results?.channels[0]?.alternatives[0]\<close>: the first alternative of the first
  channel, or \<open>undefined\<close>.
\<close>

fun firstAlternative :: "jsstring list list option \<Rightarrow> jsstring option" where
  "firstAlternative None = None"
| "firstAlternative (Some []) = None"
| "firstAlternative (Some ([] # channels)) = None"
| "firstAlternative (Some ((alt # alts) # channels)) = Some alt"

definition getTranscript ::
  "env \<Rightarrow> jsstring \<Rightarrow> world \<Rightarrow> (error + jsstring \<times> jsstring \<times> bool) \<times> world" where
  "getTranscript e audioFile w =
     (let w1 = request w (TranscribeFile audioFile)
      in case transcribeFile e audioFile (files w (resolve audioFile)) of
           Inl err \<Rightarrow> (Inl err, w1)
         | Inr result \<Rightarrow>
             (case firstAlternative result of
                None \<Rightarrow> (Inl TranscriptionProviderError, w1)
              | Some transcript \<Rightarrow>
                  (let outputDir = js ''./transcription/'';
                       baseFileName = path_basename e audioFile (path_extname e audioFile);
                       transcriptFileName =
                         path_join e outputDir (baseFileName @ js ''_transcript.txt'')
                   in case ensureDir w1 outputDir of
                        Inl err \<Rightarrow> (Inl err, w1)
                      | Inr w2 \<Rightarrow>
                          (case writeFileSync w2 transcriptFileName (Text transcript) of
                             Inl err \<Rightarrow> (Inl err, w2)
                           | Inr w3 \<Rightarrow>
                               (case unlinkSync w3 audioFile of
                                  Inl err \<Rightarrow> (Inl err, w3)
                                | Inr w4 \<Rightarrow>
                                    (Inr (transcript, transcriptFileName, True), w4))))))"

record transcriptOut = withVideoId +
  transcript :: jsstring
  transcriptFileName :: jsval
  videoFileDeleted :: bool

text \<open>
  Lines 316 to 335: the three variables after the branch.  On the cache path they are read
  from a record of type \<open>any\<close>, so they are values of any kind.
\<close>

definition resolveTranscript ::
  "env \<Rightarrow> downloadOut \<Rightarrow> world \<Rightarrow> (error + jsval \<times> jsval \<times> bool) \<times> world" where
  "resolveTranscript e inputData w =
     (if exists inputData \<and> truthy (videoRecord inputData) then
        (case getProp (videoRecord inputData) (js ''fullTranscript'') of
           Inl err \<Rightarrow> (Inl err, w)
         | Inr t \<Rightarrow>
             (case getProp (videoRecord inputData) (js ''transcriptFileName'') of
                Inl err \<Rightarrow> (Inl err, w)
              | Inr f \<Rightarrow> (Inr (t, if truthy f then f else JStr [], True), w)))
      else case videoFileName inputData of
             None \<Rightarrow> (Inl MissingInputFile, w)
           | Some name \<Rightarrow>
               if name = [] then (Inl MissingInputFile, w)
               else (case getTranscript e name w of
                       (Inl err, w') \<Rightarrow> (Inl err, w')
                     | (Inr (t, f, d), w') \<Rightarrow> (Inr (JStr t, JStr f, d), w')))"

text \<open>
  Lines 337 to 342: \<open>!transcript || transcript.trim().length === 0\<close> throws; a truthy
  value that is not a string has no \<open>trim\<close> to call.
\<close>

definition validateTranscript :: "jsval \<Rightarrow> error + jsstring" where
  "validateTranscript t =
     (if \<not> truthy t then Inl EmptyTranscript
      else case t of
             JStr s \<Rightarrow> if length (trim s) = 0 then Inl EmptyTranscript else Inr s
           | _ \<Rightarrow> Inl TypeError)"

definition getTranscriptStep ::
  "env \<Rightarrow> downloadOut \<Rightarrow> world \<Rightarrow> (error + transcriptOut) \<times> world" where
  "getTranscriptStep e inputData w =
     (case resolveTranscript e inputData w of
        (Inl err, w') \<Rightarrow> (Inl err, w')
      | (Inr (t, f, d), w') \<Rightarrow>
          (case validateTranscript t of
             Inl err \<Rightarrow> (Inl err, w')
           | Inr s \<Rightarrow>
               (Inr \<lparr>videoId = videoId inputData, transcript = s, transcriptFileName = f,
                     videoFileDeleted = d\<rparr>, w')))"

section \<open>Structured extraction\<close>

record extractOut = transcriptOut +
  vslScript :: vslScript

text \<open>
  \<open>generateObject\<close> sends the prompt built around the transcript, then validates the
  model's raw response against the schema and throws when it does not match.
\<close>

definition generateObject :: "env \<Rightarrow> jsstring \<Rightarrow> world \<Rightarrow> (error + vslScript) \<times> world" where
  "generateObject e t w =
     (let w1 = request w (GenerateObject t)
      in case model_response e t of
           Inl err \<Rightarrow> (Inl err, w1)
         | Inr response \<Rightarrow>
             (case vslScriptSchema response of
                None \<Rightarrow> (Inl SchemaValidationError, w1)
              | Some object \<Rightarrow> (Inr object, w1)))"

definition extractVSLStep ::
  "env \<Rightarrow> transcriptOut \<Rightarrow> world \<Rightarrow> (error + extractOut) \<times> world" where
  "extractVSLStep e inputData w =
     (case generateObject e (transcript inputData) w of
        (Inl err, w') \<Rightarrow> (Inl err, w')
      | (Inr object, w') \<Rightarrow>
          (Inr \<lparr>videoId = videoId inputData, transcript = transcript inputData,
                transcriptFileName = transcriptFileName inputData,
                videoFileDeleted = videoFileDeleted inputData, vslScript = object\<rparr>, w'))"

section \<open>Persistence and summary\<close>

record summary =
  summary_totalSections :: nat
  mainPurposes :: "purpose list"
  dominantTones :: "tone list"
  effectivenessRating :: rat

record saveOut =
  out_transcript :: jsstring
  out_vslScript :: vslScript
  vslFileName :: jsstring
  summary :: summary

text \<open>
  The reducer of lines 494 to 500 (with \<open>key = purpose\<close>) and 501 to 507 (with
  \<open>key = tone\<close>): \<open>acc[k] = (acc[k] || 0) + 1\<close> over the sections, from \<open>{}\<close>.
\<close>

definition breakdown :: "('s \<Rightarrow> 'k) \<Rightarrow> 's list \<Rightarrow> ('k \<times> nat) list" where
  "breakdown key secs =
     foldl (\<lambda>acc section.
        obj_set acc (key section)
          ((case obj_get acc (key section) of None \<Rightarrow> 0 | Some n \<Rightarrow> n) + 1)) [] secs"

text \<open>Lines 485 to 509: the object that is written.\<close>

definition vslAnalysisOf :: "jsstring \<Rightarrow> extractOut \<Rightarrow> vslAnalysis" where
  "vslAnalysisOf now inputData =
     \<lparr>a_metadata = \<lparr>md_videoId = videoId inputData, analysisDate = now,
                     transcriptSource = transcriptFileName inputData\<rparr>,
      a_vslScript = vslScript inputData,
      a_statistics =
        \<lparr>totalSections = length (sections (vslScript inputData)),
         purposeBreakdown = breakdown purpose (sections (vslScript inputData)),
         toneBreakdown = breakdown tone (sections (vslScript inputData))\<rparr>\<rparr>"

text \<open>
  Lines 516 to 527: \<open>Object.keys\<close> of the purpose table; the entries of the tone table
  sorted by \<open>b - a\<close> on the counts, the first three, their keys.
\<close>

definition summaryOf :: "vslAnalysis \<Rightarrow> extractOut \<Rightarrow> summary" where
  "summaryOf vslAnalysis inputData =
     (let purposes = map fst (purposeBreakdown (a_statistics vslAnalysis));
          tones = map fst (take 3
                    (array_sort (\<lambda>p q. int (snd q) - int (snd p))
                       (toneBreakdown (a_statistics vslAnalysis))))
      in \<lparr>summary_totalSections = length (sections (vslScript inputData)),
          mainPurposes = purposes,
          dominantTones = tones,
          effectivenessRating = overallRating (effectiveness (vslScript inputData))\<rparr>)"

definition saveVSLStep :: "env \<Rightarrow> extractOut \<Rightarrow> world \<Rightarrow> (error + saveOut) \<times> world" where
  "saveVSLStep e inputData w =
     (let outputDir = js ''./vsl-analysis/''
      in case ensureDir w outputDir of
           Inl err \<Rightarrow> (Inl err, w)
         | Inr w1 \<Rightarrow>
             (let fileName =
                    path_join e outputDir (videoId inputData @ js ''_vsl_analysis.json'');
                  vslAnalysis = vslAnalysisOf (clock w1) inputData
              in case writeFileSync w1 fileName (Json vslAnalysis) of
                   Inl err \<Rightarrow> (Inl err, w1)
                 | Inr w2 \<Rightarrow>
                     (Inr \<lparr>out_transcript = transcript inputData,
                           out_vslScript = vslScript inputData,
                           vslFileName = fileName,
                           summary = summaryOf vslAnalysis inputData\<rparr>, w2)))"

section \<open>The workflow\<close>

text \<open>
  \<open>.then\<close> chains the steps: each runs on the output of the one before, and the first
  error ends the run.  The input is the input of the first step.
\<close>

definition youtubeVSLWorkflow ::
  "env \<Rightarrow> downloadIn \<Rightarrow> world \<Rightarrow> (error + saveOut) \<times> world" where
  "youtubeVSLWorkflow e inputData w =
     (case downloadVideoStep e inputData w of
        (Inl err, w1) \<Rightarrow> (Inl err, w1)
      | (Inr downloaded, w1) \<Rightarrow>
          (case getTranscriptStep e downloaded w1 of
             (Inl err, w2) \<Rightarrow> (Inl err, w2)
           | (Inr transcribed, w2) \<Rightarrow>
               (case extractVSLStep e transcribed w2 of
                  (Inl err, w3) \<Rightarrow> (Inl err, w3)
                | (Inr extracted, w3) \<Rightarrow> saveVSLStep e extracted w3)))"

section \<open>What the specification says, in its own words\<close>

abbreviation purposesOf :: "vslScript \<Rightarrow> purpose list" where
  "purposesOf s \<equiv> map purpose (sections s)"

abbreviation tonesOf :: "vslScript \<Rightarrow> tone list" where
  "tonesOf s \<equiv> map tone (sections s)"

text \<open>
  "Top tones by descending frequency, ties broken by order of first occurrence": \<open>a\<close>
  outranks \<open>b\<close> in \<open>xs\<close> when it occurs more often, or as often and first.
\<close>

definition firstIndex :: "'a list \<Rightarrow> 'a \<Rightarrow> nat" where
  "firstIndex xs a = length (takeWhile (\<lambda>x. x \<noteq> a) xs)"

definition outranks :: "'a list \<Rightarrow> 'a \<Rightarrow> 'a \<Rightarrow> bool" where
  "outranks xs a b =
     (count_list xs b < count_list xs a
      \<or> (count_list xs a = count_list xs b \<and> firstIndex xs a < firstIndex xs b))"

text \<open>The same order on the entries of a table, by count \<open>c\<close> and position \<open>h\<close>.\<close>

definition before :: "('a \<Rightarrow> nat) \<Rightarrow> ('a \<Rightarrow> nat) \<Rightarrow> 'a \<Rightarrow> 'a \<Rightarrow> bool" where
  "before c h a b = (c b < c a \<or> (c a = c b \<and> h a < h b))"

text \<open>
  "Every Section's purpose is one of the enumerated purpose values, every Section's tone
  one of the enumerated tone values, and the rating a number from 1 to 10", read on the raw
  response of the model.
\<close>

fun sectionConforms :: "jsval \<Rightarrow> bool" where
  "sectionConforms (JObj kvs) =
     ((\<exists>p\<in>set (map fst purpose_values). field kvs ''purpose'' = JStr p)
      \<and> (\<exists>t\<in>set (map fst tone_values). field kvs ''tone'' = JStr t))"
| "sectionConforms v = False"

fun ratingConforms :: "jsval \<Rightarrow> bool" where
  "ratingConforms (JNum n) = (1 \<le> n \<and> n \<le> 10)"
| "ratingConforms v = False"

fun sectionsOf :: "jsval \<Rightarrow> jsval list option" where
  "sectionsOf (JObj kvs) = (case field kvs ''sections'' of JArr secs \<Rightarrow> Some secs | _ \<Rightarrow> None)"
| "sectionsOf v = None"

fun ratingOf :: "jsval \<Rightarrow> jsval" where
  "ratingOf (JObj kvs) =
     (case field kvs ''effectiveness'' of
        JObj ekvs \<Rightarrow> field ekvs ''overallRating''
      | _ \<Rightarrow> JUndefined)"
| "ratingOf v = JUndefined"

definition responseConforms :: "jsval \<Rightarrow> bool" where
  "responseConforms response =
     ((case sectionsOf response of None \<Rightarrow> False | Some secs \<Rightarrow> list_all sectionConforms secs)
      \<and> ratingConforms (ratingOf response))"

section \<open>Concrete runs\<close>

text \<open>
  Libraries to run the steps on: paths joined as Node does for a plain file name in
  \<open>./dir/\<close>, a provider that lists the formats \<open>fs\<close>, a transcription that hears
  \<open>spoken\<close>, a model that answers \<open>response\<close>.
\<close>

definition libs :: "videoFormat list \<Rightarrow> jsstring \<Rightarrow> jsval \<Rightarrow> env" where
  "libs fs spoken response =
     \<lparr>path_join = (\<lambda>dir name. drop 2 dir @ name),
      path_basename = (\<lambda>p ext.
        take (length (rev (takeWhile (\<lambda>c. c \<noteq> 0x2F) (rev p))) - length ext)
          (rev (takeWhile (\<lambda>c. c \<noteq> 0x2F) (rev p)))),
      path_extname = (\<lambda>p.
        if 0x2E \<in> set p then 0x2E # rev (takeWhile (\<lambda>c. c \<noteq> 0x2E) (rev p)) else []),
      ytdl_getInfo = (\<lambda>url. Inr \<lparr>videoDetails_title = js ''Demo: 1'', formats = fs\<rparr>),
      ytdl_stream = (\<lambda>url. ([1, 2, 3], None)),
      transcribeFile = (\<lambda>p c. Inr (Some [[spoken]])),
      model_response = (\<lambda>t. Inr response)\<rparr>"

definition world0 :: world where
  "world0 = \<lparr>files = Map.empty, dirs = {}, calls = [], clock = js ''2025-01-01T00:00:00.000Z''\<rparr>"

definition formats0 :: "videoFormat list" where
  "formats0 =
     [\<lparr>hasAudio = True, hasVideo = True, audioBitrate = Some 192, container = Some (js ''mp4'')\<rparr>,
      \<lparr>hasAudio = True, hasVideo = False, audioBitrate = None, container = Some (js ''webm'')\<rparr>,
      \<lparr>hasAudio = True, hasVideo = False, audioBitrate = Some 128, container = Some (js ''webm'')\<rparr>,
      \<lparr>hasAudio = True, hasVideo = False, audioBitrate = Some 160, container = Some (js ''mp4'')\<rparr>,
      \<lparr>hasAudio = True, hasVideo = False, audioBitrate = Some 160, container = Some (js ''webm'')\<rparr>,
      \<lparr>hasAudio = False, hasVideo = True, audioBitrate = None, container = Some (js ''mp4'')\<rparr>]"


definition fresh0 :: downloadIn where
  "fresh0 = \<lparr>videoId = js ''abc123'', exists = False, videoRecord = JNull, keywords' = None\<rparr>"

definition recordOf :: "jsstring \<Rightarrow> jsval" where
  "recordOf t =
     JObj [(js ''fullTranscript'', JStr t),
       (js ''transcriptFileName'', JStr (js ''transcription/Demo_xyz789_transcript.txt''))]"

definition cachedWith :: "jsval \<Rightarrow> downloadIn" where
  "cachedWith r =
     \<lparr>videoId = js ''xyz789'', exists = True, videoRecord = r, keywords' = Some [js ''offer'']\<rparr>"

definition downloadedWith :: "bool \<Rightarrow> jsval \<Rightarrow> jsstring option \<Rightarrow> downloadOut" where
  "downloadedWith ex r f =
     \<lparr>videoId = js ''xyz789'', exists = ex, videoRecord = r, keywords' = None,
      videoFileName = f\<rparr>"

definition transcribed0 :: transcriptOut where
  "transcribed0 =
     \<lparr>videoId = js ''abc123'', transcript = js ''Hello world'',
      transcriptFileName = JStr (js ''transcription/Demo_abc123_transcript.txt''),
      videoFileDeleted = True\<rparr>"

definition sectionJson :: "string \<Rightarrow> string \<Rightarrow> jsval" where
  "sectionJson p t =
     JObj [(js ''title'', JStr (js ''Open'')), (js ''content'', JStr (js ''Stop'')),
       (js ''purpose'', JStr (js p)), (js ''tone'', JStr (js t)),
       (js ''keyPoints'', JArr [JStr (js ''now'')]), (js ''timestamps'', JNull)]"

definition responseOf :: "jsval list \<Rightarrow> jsval \<Rightarrow> jsval" where
  "responseOf secs rating =
     JObj [(js ''overallStrategy'', JStr (js ''direct'')),
       (js ''targetAudience'', JStr (js ''founders'')),
       (js ''mainOffer'', JStr (js ''course'')),
       (js ''sections'', JArr secs),
       (js ''effectiveness'',
          JObj [(js ''strengths'', JArr []), (js ''improvements'', JArr []),
            (js ''overallRating'', rating)])]"

definition sectionOf :: "purpose \<Rightarrow> tone \<Rightarrow> vslSection" where
  "sectionOf p t =
     \<lparr>title = js ''Open'', content = js ''Stop'', purpose = p, tone = t,
      keyPoints = [js ''now''], timestamps = None\<rparr>"

definition scriptOf :: "vslSection list \<Rightarrow> rat \<Rightarrow> vslScript" where
  "scriptOf secs rating =
     \<lparr>overallStrategy = js ''direct'', targetAudience = js ''founders'',
      mainOffer = js ''course'', sections = secs,
      effectiveness = \<lparr>strengths = [], improvements = [], overallRating = rating\<rparr>\<rparr>"

definition extractedWith :: "vslSection list \<Rightarrow> extractOut" where
  "extractedWith secs =
     \<lparr>videoId = js ''abc123'', transcript = js ''Hello world'',
      transcriptFileName = JStr (js ''transcription/Demo_abc123_transcript.txt''),
      videoFileDeleted = True, vslScript = scriptOf secs 7\<rparr>"

definition extracted0 :: extractOut where
  "extracted0 =
     extractedWith [sectionOf hook urgent, sectionOf hook urgent,
       sectionOf call_to_action reassuring]"

definition extracted1 :: extractOut where
  "extracted1 =
     extractedWith [sectionOf hook logical, sectionOf guarantee urgent,
       sectionOf hook emotional, sectionOf bonus_offer urgent,
       sectionOf call_to_action reassuring, sectionOf call_to_action emotional]"


section \<open>Lemmas\<close>

lemma map_fst_obj_set:
  "map fst (obj_set acc k v) = (if k \<in> fst ` set acc then map fst acc else map fst acc @ [k])"
  by (induction acc) auto

lemma map_of_obj_set: "map_of (obj_set acc k v) = (map_of acc)(k \<mapsto> v)"
  by (induction acc) auto

lemma breakdown_snoc:
  "breakdown key (secs @ [s]) =
     obj_set (breakdown key secs) (key s)
       ((case obj_get (breakdown key secs) (key s) of None \<Rightarrow> 0 | Some n \<Rightarrow> n) + 1)"
  by (simp add: breakdown_def)

lemma breakdown_Nil: "breakdown key [] = []"
  by (simp add: breakdown_def)

lemma keys_breakdown:
  "map fst (breakdown key secs) = rev (remdups (rev (map key secs)))"
proof (induction secs rule: rev_induct)
  case Nil
  show ?case by (simp add: breakdown_Nil)
next
  case (snoc s secs)
  have "fst ` set (breakdown key secs) = key ` set secs"
    using arg_cong [OF snoc.IH, of set] by simp
  then show ?case
    using snoc.IH by (simp add: breakdown_snoc map_fst_obj_set)
qed

lemma map_of_breakdown:
  "map_of (breakdown key secs) k =
     (if k \<in> key ` set secs then Some (count_list (map key secs) k) else None)"
proof (induction secs rule: rev_induct)
  case Nil
  show ?case by (simp add: breakdown_Nil)
next
  case (snoc s secs)
  show ?case
    using snoc.IH
    by (auto simp: breakdown_snoc map_of_obj_set obj_get_def)
qed

lemma distinct_keys_breakdown: "distinct (map fst (breakdown key secs))"
  by (simp add: keys_breakdown)

lemma set_keys_breakdown: "set (map fst (breakdown key secs)) = key ` set secs"
  by (simp add: keys_breakdown)

lemma entry_breakdown:
  assumes "(k, n) \<in> set (breakdown key secs)"
  shows "k \<in> key ` set secs \<and> n = count_list (map key secs) k \<and> 0 < n"
proof -
  have "map_of (breakdown key secs) k = Some n"
    using assms map_of_eq_Some_iff [OF distinct_keys_breakdown, of key secs k n] by simp
  then have *: "k \<in> key ` set secs \<and> n = count_list (map key secs) k"
    by (auto simp: map_of_breakdown split: if_splits)
  then have "k \<in> set (map key secs)" by simp
  then have "count_list (map key secs) k \<noteq> 0"
    by (simp only: count_list_0_iff not_not)
  then have "0 < count_list (map key secs) k"
    by simp
  with * show ?thesis by simp
qed

lemma sum_obj_set:
  "distinct (map fst acc) \<Longrightarrow>
   sum_list (map snd (obj_set acc k (Suc (case map_of acc k of None \<Rightarrow> 0 | Some n \<Rightarrow> n))))
     = Suc (sum_list (map snd acc))"
proof (induction acc)
  case Nil
  show ?case by simp
next
  case (Cons p ps)
  obtain a b where p: "p = (a, b)" by (cases p)
  show ?case
  proof (cases "a = k")
    case True
    then show ?thesis using p by simp
  next
    case False
    then show ?thesis using p Cons by simp
  qed
qed

lemma sum_breakdown: "sum_list (map snd (breakdown key secs)) = length secs"
proof (induction secs rule: rev_induct)
  case Nil
  show ?case by (simp add: breakdown_Nil)
next
  case (snoc s secs)
  show ?case
    using snoc.IH sum_obj_set [OF distinct_keys_breakdown, of key secs "key s"]
    by (simp add: breakdown_snoc obj_get_def)
qed


lemma set_insert_cmp: "set (insert_cmp cmp x ys) = insert x (set ys)"
  by (induction ys) auto

lemma length_insert_cmp: "length (insert_cmp cmp x ys) = Suc (length ys)"
  by (induction ys) auto

lemma array_sort_Cons: "array_sort cmp (x # xs) = insert_cmp cmp x (array_sort cmp xs)"
  by (simp add: array_sort_def)

lemma array_sort_Nil: "array_sort cmp [] = []"
  by (simp add: array_sort_def)

lemma set_array_sort: "set (array_sort cmp xs) = set xs"
  by (induction xs) (simp_all add: array_sort_Nil array_sort_Cons set_insert_cmp)

lemma length_array_sort: "length (array_sort cmp xs) = length xs"
  by (induction xs) (simp_all add: array_sort_Nil array_sort_Cons length_insert_cmp)

lemma distinct_map_insert_cmp:
  "distinct (map f (insert_cmp cmp x ys)) = (f x \<notin> f ` set ys \<and> distinct (map f ys))"
  by (induction ys) (auto simp: set_insert_cmp)

lemma distinct_map_array_sort:
  "distinct (map f (array_sort cmp xs)) = distinct (map f xs)"
  by (induction xs)
     (simp_all add: array_sort_Nil array_sort_Cons distinct_map_insert_cmp set_array_sort)

lemma sorted_insert_cmp:
  assumes "sorted_wrt (before c h) ys" and "\<forall>y\<in>set ys. h x < h y"
  shows "sorted_wrt (before c h) (insert_cmp (\<lambda>a b. int (c b) - int (c a)) x ys)"
  using assms
proof (induction ys)
  case Nil
  show ?case by simp
next
  case (Cons y ys)
  show ?case
  proof (cases "c y \<le> c x")
    case True
    have "before c h x z" if "z \<in> set (y # ys)" for z
    proof -
      have "c z \<le> c y"
        using that Cons.prems(1) by (auto simp: before_def)
      moreover have "h x < h z"
        using that Cons.prems(2) by auto
      ultimately show ?thesis
        using True by (auto simp: before_def)
    qed
    then show ?thesis
      using True Cons.prems(1) by simp
  next
    case False
    have "before c h y x"
      using False by (simp add: before_def)
    then show ?thesis
      using False Cons by (auto simp: set_insert_cmp)
  qed
qed

lemma sorted_array_sort:
  assumes "sorted_wrt (\<lambda>a b. h a < h b) xs"
  shows "sorted_wrt (before c h) (array_sort (\<lambda>a b. int (c b) - int (c a)) xs)"
  using assms
proof (induction xs)
  case Nil
  show ?case by (simp add: array_sort_Nil)
next
  case (Cons x xs)
  then show ?case
    by (simp add: array_sort_Cons sorted_insert_cmp set_array_sort)
qed


lemma firstIndex_snoc:
  "firstIndex (xs @ [x]) a = (if a \<in> set xs then firstIndex xs a else
     if a = x then length xs else Suc (length xs))"
proof (cases "a \<in> set xs")
  case True
  then show ?thesis
    by (simp add: firstIndex_def takeWhile_append1)
next
  case False
  then have "takeWhile (\<lambda>y. y \<noteq> a) (xs @ [x]) = xs @ takeWhile (\<lambda>y. y \<noteq> a) [x]"
    by (intro takeWhile_append2) auto
  then show ?thesis
    using False by (simp add: firstIndex_def)
qed

lemma firstIndex_less: "a \<in> set xs \<Longrightarrow> firstIndex xs a < length xs"
  by (induction xs) (auto simp: firstIndex_def)

lemma sorted_first_occurrences:
  "sorted_wrt (\<lambda>a b. firstIndex xs a < firstIndex xs b) (rev (remdups (rev xs)))"
proof (induction xs rule: rev_induct)
  case Nil
  show ?case by simp
next
  case (snoc x xs)
  let ?K = "rev (remdups (rev xs))"
  have K: "set ?K = set xs" by simp
  have old: "sorted_wrt (\<lambda>a b. firstIndex (xs @ [x]) a < firstIndex (xs @ [x]) b) ?K"
    using snoc.IH
    by (rule sorted_wrt_mono_rel [rotated]) (simp add: firstIndex_snoc)
  show ?case
  proof (cases "x \<in> set xs")
    case True
    then show ?thesis using old by simp
  next
    case False
    have "\<forall>a\<in>set ?K. firstIndex (xs @ [x]) a < firstIndex (xs @ [x]) x"
      using False by (simp add: firstIndex_snoc firstIndex_less)
    then show ?thesis
      using False old by (simp add: sorted_wrt_append)
  qed
qed


lemma self_ancestor:
  assumes "snd p \<noteq> []"
  shows "p \<in> set (ancestors p)"
proof -
  have "length (snd p) \<in> set [1..<Suc (length (snd p))]"
    using assms by (cases "snd p") simp_all
  moreover have "p = (fst p, take (length (snd p)) (snd p))"
    by simp
  ultimately show ?thesis
    unfolding ancestors_def set_map by (rule rev_image_eqI)
qed

lemma mkdirSync_Inr:
  "mkdirSync w p = Inr w' \<Longrightarrow> w' = w\<lparr>dirs := dirs w \<union> set (ancestors (resolve p))\<rparr>"
  by (simp add: mkdirSync_def split: if_splits)

lemma ensureDir_Inr:
  assumes "ensureDir w d = Inr w'"
  shows "files w' = files w" and "calls w' = calls w" and "clock w' = clock w"
    and "dirs w \<subseteq> dirs w'" and "existsSync w' d"
proof -
  have "files w' = files w \<and> calls w' = calls w \<and> clock w' = clock w
      \<and> dirs w \<subseteq> dirs w' \<and> existsSync w' d"
  proof (cases "existsSync w d")
    case True
    then show ?thesis
      using assms by (simp add: ensureDir_def)
  next
    case False
    then have "mkdirSync w d = Inr w'"
      using assms by (simp add: ensureDir_def)
    from mkdirSync_Inr [OF this]
    have w': "w' = w\<lparr>dirs := dirs w \<union> set (ancestors (resolve d))\<rparr>" .
    have "snd (resolve d) \<noteq> []"
      using False by (auto simp: existsSync_def isDirectory_def)
    from self_ancestor [OF this] have "resolve d \<in> dirs w'"
      by (simp add: w')
    then have "existsSync w' d"
      by (simp add: existsSync_def isDirectory_def)
    then show ?thesis
      by (simp add: w')
  qed
  then show "files w' = files w" and "calls w' = calls w" and "clock w' = clock w"
    and "dirs w \<subseteq> dirs w'" and "existsSync w' d"
    by simp_all
qed

lemma writeFileSync_Inr:
  assumes "writeFileSync w p c = Inr w'"
  shows "w' = w\<lparr>files := (files w)(resolve p \<mapsto> c)\<rparr>"
    and "take 1 (rev p) \<noteq> js ''/''"
    and "\<not> isDirectory w (resolve p)"
    and "isDirectory w (parent (resolve p))"
  using assms by (auto simp: writeFileSync_def split: if_splits)

lemma unlinkSync_Inr:
  "unlinkSync w p = Inr w' \<Longrightarrow> w' = w\<lparr>files := (files w)(resolve p := None)\<rparr>"
  by (simp add: unlinkSync_def split: if_splits)

lemma calls_kept:
  "ensureDir w p = Inr w' \<Longrightarrow> calls w' = calls w"
  "writeFileSync w p c = Inr w' \<Longrightarrow> calls w' = calls w"
  "unlinkSync w p = Inr w' \<Longrightarrow> calls w' = calls w"
  by (auto dest: ensureDir_Inr(2) writeFileSync_Inr(1) unlinkSync_Inr)

lemma saveVSLStep_Inr:
  assumes "saveVSLStep e inputData w = (Inr out, w')"
  shows "\<exists>w1. ensureDir w (js ''./vsl-analysis/'') = Inr w1
           \<and> writeFileSync w1 (vslFileName out) (Json (vslAnalysisOf (clock w) inputData))
               = Inr w'"
    and "vslFileName out =
           path_join e (js ''./vsl-analysis/'') (videoId inputData @ js ''_vsl_analysis.json'')"
    and "summary out = summaryOf (vslAnalysisOf (clock w) inputData) inputData"
    and "files w' =
           (files w)(resolve (vslFileName out) \<mapsto> Json (vslAnalysisOf (clock w) inputData))"
proof -
  let ?name = "path_join e (js ''./vsl-analysis/'') (videoId inputData @ js ''_vsl_analysis.json'')"
  from assms obtain w1 where
    d: "ensureDir w (js ''./vsl-analysis/'') = Inr w1"
    and wr: "writeFileSync w1 ?name (Json (vslAnalysisOf (clock w1) inputData)) = Inr w'"
    and out: "vslFileName out = ?name"
      "summary out = summaryOf (vslAnalysisOf (clock w1) inputData) inputData"
    by (auto simp: saveVSLStep_def Let_def split: sum.splits)
  note k = ensureDir_Inr [OF d]
  show "\<exists>w1. ensureDir w (js ''./vsl-analysis/'') = Inr w1
           \<and> writeFileSync w1 (vslFileName out) (Json (vslAnalysisOf (clock w) inputData))
               = Inr w'"
    using d wr by (simp add: out(1) k(3))
  show "vslFileName out = ?name"
    by (rule out(1))
  show "summary out = summaryOf (vslAnalysisOf (clock w) inputData) inputData"
    by (simp add: out(2) k(3))
  show "files w' =
      (files w)(resolve (vslFileName out) \<mapsto> Json (vslAnalysisOf (clock w) inputData))"
    using writeFileSync_Inr(1) [OF wr] by (simp add: out(1) k(1,3))
qed

lemma saveVSLStep_succeeds:
  assumes "existsSync w (js ''./vsl-analysis/'')"
    and "take 1 (rev (path_join e (js ''./vsl-analysis/'')
            (videoId inputData @ js ''_vsl_analysis.json''))) \<noteq> js ''/''"
    and "\<not> isDirectory w (resolve (path_join e (js ''./vsl-analysis/'')
            (videoId inputData @ js ''_vsl_analysis.json'')))"
    and "isDirectory w (parent (resolve (path_join e (js ''./vsl-analysis/'')
            (videoId inputData @ js ''_vsl_analysis.json''))))"
  shows "\<exists>out. saveVSLStep e inputData w =
     (Inr out,
      w\<lparr>files := (files w)(resolve (path_join e (js ''./vsl-analysis/'')
            (videoId inputData @ js ''_vsl_analysis.json''))
          \<mapsto> Json (vslAnalysisOf (clock w) inputData))\<rparr>)"
  using assms by (simp add: saveVSLStep_def Let_def ensureDir_def writeFileSync_def)

text \<open>
  A run that is stopped by the file system: \<open>./vsl-analysis/\<close> is made, the directory
  \<open>a\<close> in it is not, so an analysis for the video id \<open>a/b\<close> cannot be written.
\<close>

lemma save_needs_directory:
  "saveVSLStep (libs [] [] JNull) ((extractedWith secs)\<lparr>videoId := js ''a/b''\<rparr>) world0 =
     (Inl FsError, world0\<lparr>dirs := {(False, [js ''vsl-analysis''])}\<rparr>)"
  by (simp add: saveVSLStep_def Let_def ensureDir_def existsSync_def mkdirSync_def
      writeFileSync_def isDirectory_def parent_def ancestors_def resolve_def walk_def
      libs_def extractedWith_def world0_def js_def)

lemma save_runs:
  "\<exists>out w'. saveVSLStep (libs fs spoken response) (extractedWith secs) world0 = (Inr out, w')"
  by (simp add: saveVSLStep_def Let_def ensureDir_def existsSync_def mkdirSync_def
      writeFileSync_def isDirectory_def parent_def ancestors_def resolve_def walk_def
      libs_def extractedWith_def world0_def js_def)

lemma breakdown_map: "breakdown key secs = breakdown (\<lambda>k. k) (map key secs)"
  by (simp add: breakdown_def foldl_map)

lemma dominantTones_ranked:
  fixes secs :: "vslSection list"
  defines "ts \<equiv> map tone secs"
  defines "ds \<equiv> map fst (take 3 (array_sort (\<lambda>p q. int (snd q) - int (snd p)) (breakdown tone secs)))"
  shows "distinct ds \<and> length ds = min 3 (card (set ts)) \<and> set ds \<subseteq> set ts
     \<and> sorted_wrt (outranks ts) ds \<and> (\<forall>x\<in>set ds. \<forall>y\<in>set ts - set ds. outranks ts x y)"
proof -
  let ?cmp = "\<lambda>p q :: tone \<times> nat. int (snd q) - int (snd p)"
  let ?TB = "breakdown tone secs"
  let ?L = "array_sort ?cmp ?TB"
  let ?h = "\<lambda>p :: tone \<times> nat. firstIndex ts (fst p)"
  have keys: "map fst ?TB = rev (remdups (rev ts))"
    by (simp add: keys_breakdown ts_def)
  have "sorted_wrt (\<lambda>a b. firstIndex ts a < firstIndex ts b) (map fst ?TB)"
    unfolding keys by (rule sorted_first_occurrences)
  then have "sorted_wrt (\<lambda>a b. ?h a < ?h b) ?TB"
    by (simp add: sorted_wrt_map)
  then have sortedL: "sorted_wrt (before snd ?h) ?L"
    by (rule sorted_array_sort)
  have entry: "snd p = count_list ts (fst p)" if "p \<in> set ?L" for p
    using that entry_breakdown [of "fst p" "snd p" tone secs]
    by (simp add: set_array_sort ts_def)
  have rank: "outranks ts (fst p) (fst q)"
    if "p \<in> set ?L" "q \<in> set ?L" "before snd ?h p q" for p q
    using that entry [of p] entry [of q] by (auto simp: before_def outranks_def)
  have dL: "distinct (map fst ?L)"
    by (simp add: distinct_map_array_sort distinct_keys_breakdown)
  have setL: "set (map fst ?L) = set ts"
    using set_keys_breakdown [of tone secs] by (simp add: set_array_sort ts_def)
  have lenL: "length ?L = card (set ts)"
  proof -
    have "length ?L = length (map fst ?TB)"
      by (simp add: length_array_sort)
    also have "\<dots> = card (set ts)"
      unfolding keys by (simp add: length_remdups_card_conv)
    finally show ?thesis .
  qed
  have split: "map fst ?L = ds @ map fst (drop 3 ?L)"
    unfolding ds_def by (simp flip: map_append)
  have 1: "distinct ds"
    using dL unfolding split by simp
  have 2: "length ds = min 3 (card (set ts))"
    by (simp add: ds_def lenL min.commute)
  have 3: "set ds \<subseteq> set ts"
    using setL unfolding split by auto
  have "sorted_wrt (before snd ?h) (take 3 ?L @ drop 3 ?L)"
    using sortedL by simp
  then have parts: "sorted_wrt (before snd ?h) (take 3 ?L)"
    "\<forall>p\<in>set (take 3 ?L). \<forall>q\<in>set (drop 3 ?L). before snd ?h p q"
    unfolding sorted_wrt_append by blast+
  have "sorted_wrt (\<lambda>p q. outranks ts (fst p) (fst q)) (take 3 ?L)"
    using parts(1)
    by (rule sorted_wrt_mono_rel [rotated]) (auto intro: rank dest: in_set_takeD)
  then have 4: "sorted_wrt (outranks ts) ds"
    by (simp add: ds_def sorted_wrt_map)
  have 5: "outranks ts x y" if "x \<in> set ds" "y \<in> set ts - set ds" for x y
  proof -
    have "x \<in> fst ` set (take 3 ?L)"
      using that(1) by (simp add: ds_def)
    then obtain p where p: "p \<in> set (take 3 ?L)" "x = fst p"
      by blast
    have "y \<in> set (map fst ?L)" "y \<notin> set ds"
      using that(2) setL by auto
    then have "y \<in> set (map fst (drop 3 ?L))"
      unfolding split by simp
    then have "y \<in> fst ` set (drop 3 ?L)"
      by simp
    then obtain q where q: "q \<in> set (drop 3 ?L)" "y = fst q"
      by blast
    have "before snd ?h p q"
      using parts(2) p(1) q(1) by blast
    then show ?thesis
      using rank [of p q] p q by (auto dest: in_set_takeD in_set_dropD)
  qed
  from 1 2 3 4 5 show ?thesis by blast
qed



section \<open>The claims\<close>

text \<open>
  Claim C5.  Whenever the persistence step returns, the statistics it has written to the
  analysis file are frequency counts over the sections: a purpose or tone is a key exactly when it occurs, with the number of its
  occurrences.  For purposes hook, hook, call_to_action and tones urgent, urgent, reassuring
  the tables are hook 2, call_to_action 1 and urgent 2, reassuring 1, and the dominant tones
  are urgent, reassuring.  In general the dominant tones are the three highest-ranked
  distinct tones (all of them when there are fewer), in rank order: more frequent first,
  and of two equally frequent tones the one that occurs first.
\<close>

theorem summary_derivation:
  assumes "saveVSLStep e inputData w = (Inr out, w')"
  shows "\<exists>a. files w' (resolve (vslFileName out)) = Some (Json a)
     \<and> a_vslScript a = vslScript inputData
     \<and> (\<forall>k. map_of (purposeBreakdown (a_statistics a)) k =
            (if k \<in> set (purposesOf (a_vslScript a))
             then Some (count_list (purposesOf (a_vslScript a)) k) else None))
     \<and> (\<forall>k. map_of (toneBreakdown (a_statistics a)) k =
            (if k \<in> set (tonesOf (a_vslScript a))
             then Some (count_list (tonesOf (a_vslScript a)) k) else None))
     \<and> (purposesOf (a_vslScript a) = [hook, hook, call_to_action] \<longrightarrow>
          purposeBreakdown (a_statistics a) = [(hook, 2), (call_to_action, 1)])
     \<and> (tonesOf (a_vslScript a) = [urgent, urgent, reassuring] \<longrightarrow>
          toneBreakdown (a_statistics a) = [(urgent, 2), (reassuring, 1)]
          \<and> dominantTones (summary out) = [urgent, reassuring])
     \<and> distinct (dominantTones (summary out))
     \<and> length (dominantTones (summary out)) = min 3 (card (set (tonesOf (a_vslScript a))))
     \<and> set (dominantTones (summary out)) \<subseteq> set (tonesOf (a_vslScript a))
     \<and> sorted_wrt (outranks (tonesOf (a_vslScript a))) (dominantTones (summary out))
     \<and> (\<forall>x\<in>set (dominantTones (summary out)).
          \<forall>y\<in>set (tonesOf (a_vslScript a)) - set (dominantTones (summary out)).
            outranks (tonesOf (a_vslScript a)) x y)"
proof -
  let ?a = "vslAnalysisOf (clock w) inputData"
  let ?secs = "sections (vslScript inputData)"
  note out = saveVSLStep_Inr(3,4) [OF assms]
  have script: "a_vslScript ?a = vslScript inputData"
    by (simp add: vslAnalysisOf_def)
  have pb: "purposeBreakdown (a_statistics ?a) = breakdown purpose ?secs"
    by (simp add: vslAnalysisOf_def)
  have tb: "toneBreakdown (a_statistics ?a) = breakdown tone ?secs"
    by (simp add: vslAnalysisOf_def)
  have ds: "dominantTones (summary out) =
      map fst (take 3 (array_sort (\<lambda>p q. int (snd q) - int (snd p)) (breakdown tone ?secs)))"
    by (simp add: out(1) summaryOf_def tb)
  have p_ex: "breakdown purpose ?secs = [(hook, 2), (call_to_action, 1)]"
    if "map purpose ?secs = [hook, hook, call_to_action]"
    by (subst breakdown_map) (simp add: that breakdown_def obj_get_def)
  have t_ex: "breakdown tone ?secs = [(urgent, 2), (reassuring, 1)]"
    if "map tone ?secs = [urgent, urgent, reassuring]"
    by (subst breakdown_map) (simp add: that breakdown_def obj_get_def)
  have d_ex: "dominantTones (summary out) = [urgent, reassuring]"
    if "map tone ?secs = [urgent, urgent, reassuring]"
    by (simp add: ds t_ex [OF that] array_sort_def)
  have 1: "files w' (resolve (vslFileName out)) = Some (Json ?a)"
    by (simp add: out(2))
  have 2: "\<forall>k. map_of (purposeBreakdown (a_statistics ?a)) k =
            (if k \<in> set (purposesOf (a_vslScript ?a))
             then Some (count_list (purposesOf (a_vslScript ?a)) k) else None)"
    by (simp add: pb script map_of_breakdown)
  have 3: "\<forall>k. map_of (toneBreakdown (a_statistics ?a)) k =
            (if k \<in> set (tonesOf (a_vslScript ?a))
             then Some (count_list (tonesOf (a_vslScript ?a)) k) else None)"
    by (simp add: tb script map_of_breakdown)
  note rk = dominantTones_ranked [of ?secs, folded ds]
  show ?thesis
    apply (rule exI [of _ ?a])
    apply (intro conjI)
    subgoal by (rule 1)
    subgoal by (rule script)
    subgoal by (rule 2)
    subgoal by (rule 3)
    subgoal by (simp add: script pb p_ex)
    subgoal by (simp add: script tb t_ex d_ex)
    subgoal using rk by (simp add: script)
    subgoal using rk by (simp add: script)
    subgoal using rk by (simp add: script)
    subgoal using rk by (simp add: script)
    subgoal using rk by (simp add: script)
    done
qed

theorem summary_derivation_witness:
  "(\<exists>out a. fst (saveVSLStep (libs [] [] JNull) extracted0 world0) = Inr out
      \<and> files (snd (saveVSLStep (libs [] [] JNull) extracted0 world0))
            (resolve (vslFileName out)) = Some (Json a)
      \<and> purposeBreakdown (a_statistics a) = [(hook, 2), (call_to_action, 1)]
      \<and> toneBreakdown (a_statistics a) = [(urgent, 2), (reassuring, 1)]
      \<and> dominantTones (summary out) = [urgent, reassuring])
   \<and> (\<exists>out a. fst (saveVSLStep (libs [] [] JNull) extracted1 world0) = Inr out
      \<and> files (snd (saveVSLStep (libs [] [] JNull) extracted1 world0))
            (resolve (vslFileName out)) = Some (Json a)
      \<and> tonesOf (a_vslScript a) = [logical, urgent, emotional, urgent, reassuring, emotional]
      \<and> map_of (toneBreakdown (a_statistics a)) emotional = Some 2
      \<and> length (dominantTones (summary out)) = 3
      \<and> sorted_wrt (outranks (tonesOf (a_vslScript a))) (dominantTones (summary out)))"
proof -
  let ?e = "libs [] [] JNull"
  have first: "\<exists>out a. fst (saveVSLStep ?e extracted0 world0) = Inr out
      \<and> files (snd (saveVSLStep ?e extracted0 world0)) (resolve (vslFileName out))
          = Some (Json a)
      \<and> purposeBreakdown (a_statistics a) = [(hook, 2), (call_to_action, 1)]
      \<and> toneBreakdown (a_statistics a) = [(urgent, 2), (reassuring, 1)]
      \<and> dominantTones (summary out) = [urgent, reassuring]"
  proof -
    have ts: "map tone (sections (vslScript extracted0)) = [urgent, urgent, reassuring]"
      "map purpose (sections (vslScript extracted0)) = [hook, hook, call_to_action]"
      by (simp_all add: extracted0_def extractedWith_def scriptOf_def sectionOf_def)
    from save_runs [of "[]" "[]" JNull] obtain out w' where
      run: "saveVSLStep ?e extracted0 world0 = (Inr out, w')"
      unfolding extracted0_def by blast
    from summary_derivation [OF run] obtain a where
      a: "files w' (resolve (vslFileName out)) = Some (Json a)"
         "a_vslScript a = vslScript extracted0"
         "purposesOf (a_vslScript a) = [hook, hook, call_to_action] \<longrightarrow>
            purposeBreakdown (a_statistics a) = [(hook, 2), (call_to_action, 1)]"
         "tonesOf (a_vslScript a) = [urgent, urgent, reassuring] \<longrightarrow>
            toneBreakdown (a_statistics a) = [(urgent, 2), (reassuring, 1)]
            \<and> dominantTones (summary out) = [urgent, reassuring]"
      by blast
    have "fst (saveVSLStep ?e extracted0 world0) = Inr out
      \<and> files (snd (saveVSLStep ?e extracted0 world0)) (resolve (vslFileName out))
          = Some (Json a)
      \<and> purposeBreakdown (a_statistics a) = [(hook, 2), (call_to_action, 1)]
      \<and> toneBreakdown (a_statistics a) = [(urgent, 2), (reassuring, 1)]
      \<and> dominantTones (summary out) = [urgent, reassuring]"
      using a by (simp add: ts run)
    then show ?thesis
      by - (rule exI [of _ out], rule exI [of _ a], assumption)
  qed
  have second: "\<exists>out a. fst (saveVSLStep ?e extracted1 world0) = Inr out
      \<and> files (snd (saveVSLStep ?e extracted1 world0)) (resolve (vslFileName out))
          = Some (Json a)
      \<and> tonesOf (a_vslScript a) = [logical, urgent, emotional, urgent, reassuring, emotional]
      \<and> map_of (toneBreakdown (a_statistics a)) emotional = Some 2
      \<and> length (dominantTones (summary out)) = 3
      \<and> sorted_wrt (outranks (tonesOf (a_vslScript a))) (dominantTones (summary out))"
  proof -
    have ts: "map tone (sections (vslScript extracted1)) =
        [logical, urgent, emotional, urgent, reassuring, emotional]"
      by (simp add: extracted1_def extractedWith_def scriptOf_def sectionOf_def)
    have card: "min 3 (card (set [logical, urgent, emotional, urgent, reassuring, emotional])) = 3"
      by (simp add: card_insert_if)
    from save_runs [of "[]" "[]" JNull] obtain out w' where
      run: "saveVSLStep ?e extracted1 world0 = (Inr out, w')"
      unfolding extracted1_def by blast
    from summary_derivation [OF run] obtain a where
      a: "files w' (resolve (vslFileName out)) = Some (Json a)"
         "a_vslScript a = vslScript extracted1"
         "\<forall>k. map_of (toneBreakdown (a_statistics a)) k =
              (if k \<in> set (tonesOf (a_vslScript a))
               then Some (count_list (tonesOf (a_vslScript a)) k) else None)"
         "length (dominantTones (summary out)) = min 3 (card (set (tonesOf (a_vslScript a))))"
         "sorted_wrt (outranks (tonesOf (a_vslScript a))) (dominantTones (summary out))"
      by blast
    have "tonesOf (a_vslScript a) = [logical, urgent, emotional, urgent, reassuring, emotional]"
      by (simp add: a(2) ts)
    moreover have "map_of (toneBreakdown (a_statistics a)) emotional = Some 2"
      using a(3) by (simp add: a(2) ts)
    moreover have "length (dominantTones (summary out)) = 3"
      using a(4) by (simp only: a(2) ts card)
    ultimately have "fst (saveVSLStep ?e extracted1 world0) = Inr out
       \<and> files (snd (saveVSLStep ?e extracted1 world0)) (resolve (vslFileName out))
           = Some (Json a)
       \<and> tonesOf (a_vslScript a) = [logical, urgent, emotional, urgent, reassuring, emotional]
       \<and> map_of (toneBreakdown (a_statistics a)) emotional = Some 2
       \<and> length (dominantTones (summary out)) = 3
       \<and> sorted_wrt (outranks (tonesOf (a_vslScript a))) (dominantTones (summary out))"
      using a(1,5) by (simp add: run)
    then show ?thesis
      by - (rule exI [of _ out], rule exI [of _ a], assumption)
  qed
  from first second show ?thesis by (rule conjI)
qed

text \<open>
  Claim C10.  In every persisted analysis (the file a returning persistence step has
  written) the counts of the purpose table and of the tone
  table each sum to the number of sections, every key of either table occurs in some
  section and has a positive count, and the summary's main purposes are the distinct
  purposes of the sections, each once.
\<close>

theorem statistics_consistent:
  assumes "saveVSLStep e inputData w = (Inr out, w')"
  shows "\<exists>a. files w' (resolve (vslFileName out)) = Some (Json a)
     \<and> a_vslScript a = vslScript inputData
     \<and> totalSections (a_statistics a) = length (sections (a_vslScript a))
     \<and> sum_list (map snd (purposeBreakdown (a_statistics a))) = totalSections (a_statistics a)
     \<and> sum_list (map snd (toneBreakdown (a_statistics a))) = totalSections (a_statistics a)
     \<and> (\<forall>(k, n)\<in>set (purposeBreakdown (a_statistics a)).
           k \<in> set (purposesOf (a_vslScript a)) \<and> 0 < n)
     \<and> (\<forall>(k, n)\<in>set (toneBreakdown (a_statistics a)).
           k \<in> set (tonesOf (a_vslScript a)) \<and> 0 < n)
     \<and> distinct (mainPurposes (summary out))
     \<and> set (mainPurposes (summary out)) = set (purposesOf (a_vslScript a))"
proof -
  let ?a = "vslAnalysisOf (clock w) inputData"
  let ?secs = "sections (vslScript inputData)"
  note out = saveVSLStep_Inr(3,4) [OF assms]
  have a: "a_vslScript ?a = vslScript inputData"
    "totalSections (a_statistics ?a) = length ?secs"
    "purposeBreakdown (a_statistics ?a) = breakdown purpose ?secs"
    "toneBreakdown (a_statistics ?a) = breakdown tone ?secs"
    by (simp_all add: vslAnalysisOf_def)
  have mp: "mainPurposes (summary out) = map fst (breakdown purpose ?secs)"
    by (simp add: out(1) summaryOf_def a)
  have 1: "files w' (resolve (vslFileName out)) = Some (Json ?a)"
    by (simp add: out(2))
  have 2: "\<forall>(k, n)\<in>set (breakdown purpose ?secs). k \<in> set (map purpose ?secs) \<and> 0 < n"
    using entry_breakdown [of _ _ purpose ?secs] by auto
  have 3: "\<forall>(k, n)\<in>set (breakdown tone ?secs). k \<in> set (map tone ?secs) \<and> 0 < n"
    using entry_breakdown [of _ _ tone ?secs] by auto
  show ?thesis
    apply (rule exI [of _ ?a])
    apply (intro conjI)
    subgoal by (rule 1)
    subgoal by (rule a(1))
    subgoal by (simp add: a)
    subgoal by (simp add: a sum_breakdown)
    subgoal by (simp add: a sum_breakdown)
    subgoal using 2 by (simp add: a)
    subgoal using 3 by (simp add: a)
    subgoal by (simp add: mp distinct_keys_breakdown)
    subgoal using set_keys_breakdown [of purpose ?secs] by (simp add: mp a)
    done
qed

theorem statistics_consistent_witness:
  "\<exists>out a. fst (saveVSLStep (libs [] [] JNull) extracted1 world0) = Inr out
     \<and> files (snd (saveVSLStep (libs [] [] JNull) extracted1 world0))
           (resolve (vslFileName out)) = Some (Json a)
     \<and> totalSections (a_statistics a) = 6
     \<and> sum_list (map snd (purposeBreakdown (a_statistics a))) = 6
     \<and> sum_list (map snd (toneBreakdown (a_statistics a))) = 6
     \<and> set (mainPurposes (summary out)) = {hook, guarantee, bonus_offer, call_to_action}"
proof -
  let ?e = "libs [] [] JNull"
  have secs: "purposesOf (vslScript extracted1) =
      [hook, guarantee, hook, bonus_offer, call_to_action, call_to_action]"
    "length (sections (vslScript extracted1)) = 6"
    by (simp_all add: extracted1_def extractedWith_def scriptOf_def sectionOf_def)
  from save_runs [of "[]" "[]" JNull] obtain out w' where
    run: "saveVSLStep ?e extracted1 world0 = (Inr out, w')"
    unfolding extracted1_def by blast
  from statistics_consistent [OF run] obtain a where
    a: "files w' (resolve (vslFileName out)) = Some (Json a)"
       "a_vslScript a = vslScript extracted1"
       "totalSections (a_statistics a) = length (sections (a_vslScript a))"
       "sum_list (map snd (purposeBreakdown (a_statistics a))) = totalSections (a_statistics a)"
       "sum_list (map snd (toneBreakdown (a_statistics a))) = totalSections (a_statistics a)"
       "set (mainPurposes (summary out)) = set (purposesOf (a_vslScript a))"
    by blast
  have "fst (saveVSLStep ?e extracted1 world0) = Inr out
     \<and> files (snd (saveVSLStep ?e extracted1 world0)) (resolve (vslFileName out))
         = Some (Json a)
     \<and> totalSections (a_statistics a) = 6
     \<and> sum_list (map snd (purposeBreakdown (a_statistics a))) = 6
     \<and> sum_list (map snd (toneBreakdown (a_statistics a))) = 6
     \<and> set (mainPurposes (summary out)) = {hook, guarantee, bonus_offer, call_to_action}"
    using a by (auto simp: secs run)
  then show ?thesis
    by - (rule exI [of _ out], rule exI [of _ a], assumption)
qed

text \<open>
  Claim C8.  The analysis file's path is a function of the video id alone
  (\<open><videoId>_vsl_analysis.json\<close> joined to the output directory).  So when a run of
  the persistence step has written its file, a second run for the same id succeeds too and
  writes to the path of the first: the file then holds the second analysis, every other
  file is as it was, and no file is added.
\<close>

theorem persistence_overwrites:
  assumes "videoId second = videoId first"
    and "saveVSLStep e first w = (Inr o1, w1)"
    and "saveVSLStep e second (w1\<lparr>clock := later\<rparr>) = (r2, w2)"
  shows "\<exists>o2. r2 = Inr o2
     \<and> vslFileName o1 =
         path_join e (js ''./vsl-analysis/'') (videoId first @ js ''_vsl_analysis.json'')
     \<and> vslFileName o2 = vslFileName o1
     \<and> files w1 =
         (files w)(resolve (vslFileName o1) \<mapsto> Json (vslAnalysisOf (clock w) first))
     \<and> files w2 =
         (files w)(resolve (vslFileName o1) \<mapsto> Json (vslAnalysisOf later second))
     \<and> dom (files w2) = dom (files w1)"
proof -
  let ?dir = "js ''./vsl-analysis/''"
  let ?name = "path_join e ?dir (videoId first @ js ''_vsl_analysis.json'')"
  let ?w = "w1\<lparr>clock := later\<rparr>"
  note o1 = saveVSLStep_Inr(2,4) [OF assms(2)]
  from saveVSLStep_Inr(1) [OF assms(2)] obtain wa where
    d: "ensureDir w ?dir = Inr wa"
    and wr: "writeFileSync wa ?name (Json (vslAnalysisOf (clock w) first)) = Inr w1"
    by (auto simp: o1(1))
  note k = ensureDir_Inr [OF d]
  note f = writeFileSync_Inr [OF wr]
  have dirs: "dirs ?w = dirs wa"
    by (simp add: f(1))
  have there: "existsSync ?w ?dir"
    using k(5) by (auto simp: existsSync_def isDirectory_def f(1))
  have name: "path_join e ?dir (videoId second @ js ''_vsl_analysis.json'') = ?name"
    by (simp add: assms(1))
  have "\<not> isDirectory ?w (resolve ?name)" "isDirectory ?w (parent (resolve ?name))"
    using f(3,4) by (simp_all add: isDirectory_def dirs)
  with saveVSLStep_succeeds [of ?w e second] there f(2) obtain o2 where
    second: "saveVSLStep e second ?w =
      (Inr o2, ?w\<lparr>files := (files ?w)(resolve ?name \<mapsto> Json (vslAnalysisOf (clock ?w) second))\<rparr>)"
    by (auto simp: name)
  have r2: "r2 = Inr o2"
    and w2: "w2 = ?w\<lparr>files := (files ?w)(resolve ?name \<mapsto> Json (vslAnalysisOf (clock ?w) second))\<rparr>"
    using assms(3) second by simp_all
  have same: "vslFileName o2 = vslFileName o1"
    using saveVSLStep_Inr(2) [OF second] by (simp add: o1(1) name)
  have files2: "files w2 =
      (files w)(resolve (vslFileName o1) \<mapsto> Json (vslAnalysisOf later second))"
    by (simp add: w2 o1(1) f(1) k(1))
  have "dom (files w2) = dom (files w1)"
    by (simp add: files2 o1(2))
  with r2 o1 same files2 show ?thesis by blast
qed

theorem persistence_overwrites_witness:
  "\<exists>o1 o2. fst (saveVSLStep (libs [] [] JNull) extracted0 world0) = Inr o1
     \<and> fst (saveVSLStep (libs [] [] JNull) extracted1
           ((snd (saveVSLStep (libs [] [] JNull) extracted0 world0))
              \<lparr>clock := js ''2025-01-02T00:00:00.000Z''\<rparr>)) = Inr o2
     \<and> vslFileName o1 = js ''vsl-analysis/abc123_vsl_analysis.json''
     \<and> vslFileName o2 = js ''vsl-analysis/abc123_vsl_analysis.json''
     \<and> files (snd (saveVSLStep (libs [] [] JNull) extracted1
           ((snd (saveVSLStep (libs [] [] JNull) extracted0 world0))
              \<lparr>clock := js ''2025-01-02T00:00:00.000Z''\<rparr>)))
         = [resolve (js ''vsl-analysis/abc123_vsl_analysis.json'') \<mapsto>
              Json (vslAnalysisOf (js ''2025-01-02T00:00:00.000Z'') extracted1)]"
proof -
  let ?e = "libs [] [] JNull"
  let ?s1 = "saveVSLStep ?e extracted0 world0"
  let ?s2 = "saveVSLStep ?e extracted1 ((snd ?s1)\<lparr>clock := js ''2025-01-02T00:00:00.000Z''\<rparr>)"
  have ids: "videoId extracted1 = videoId extracted0"
    by (simp add: extracted0_def extracted1_def extractedWith_def)
  have name: "path_join ?e (js ''./vsl-analysis/'') (videoId extracted0 @ js ''_vsl_analysis.json'')
      = js ''vsl-analysis/abc123_vsl_analysis.json''"
    by (simp add: libs_def extracted0_def extractedWith_def js_def)
  have fw: "files world0 = Map.empty"
    by (simp add: world0_def)
  from save_runs [of "[]" "[]" JNull] obtain o1 w1 where
    run: "?s1 = (Inr o1, w1)"
    unfolding extracted0_def by blast
  have run2: "saveVSLStep ?e extracted1 (w1\<lparr>clock := js ''2025-01-02T00:00:00.000Z''\<rparr>)
      = (fst ?s2, snd ?s2)"
    by (simp add: run)
  from persistence_overwrites [OF ids run run2] obtain o2 where
    o: "fst ?s2 = Inr o2"
       "vslFileName o1 =
         path_join ?e (js ''./vsl-analysis/'') (videoId extracted0 @ js ''_vsl_analysis.json'')"
       "vslFileName o2 = vslFileName o1"
       "files (snd ?s2) = (files world0)(resolve (vslFileName o1) \<mapsto>
          Json (vslAnalysisOf (js ''2025-01-02T00:00:00.000Z'') extracted1))"
    by blast
  have "fst ?s1 = Inr o1 \<and> fst ?s2 = Inr o2
     \<and> vslFileName o1 = js ''vsl-analysis/abc123_vsl_analysis.json''
     \<and> vslFileName o2 = js ''vsl-analysis/abc123_vsl_analysis.json''
     \<and> files (snd ?s2) = [resolve (js ''vsl-analysis/abc123_vsl_analysis.json'') \<mapsto>
              Json (vslAnalysisOf (js ''2025-01-02T00:00:00.000Z'') extracted1)]"
    using o by (simp add: name fw run)
  then show ?thesis
    by - (rule exI [of _ o1], rule exI [of _ o2], assumption)
qed

text \<open>
  Claim C3.  When \<open>exists\<close> is true the acquisition step returns its input with
  \<open>videoFileName = null\<close> and leaves the world as it was: no request to the streaming
  provider, no download, no file.
\<close>

theorem cached_acquisition_skips_download:
  assumes "exists inputData"
  shows "downloadVideoStep e inputData w =
           (Inr \<lparr>videoId = videoId inputData, exists = True,
                 videoRecord = videoRecord inputData, keywords' = keywords' inputData,
                 videoFileName = None\<rparr>, w)
         \<and> calls (snd (downloadVideoStep e inputData w)) = calls w
         \<and> files (snd (downloadVideoStep e inputData w)) = files w"
  using assms by (simp add: downloadVideoStep_def)

theorem cached_acquisition_skips_download_witness:
  "exists (cachedWith (recordOf (js ''Hello world'')))
   \<and> downloadVideoStep (libs formats0 [] JNull) (cachedWith (recordOf (js ''Hello world''))) world0 =
       (Inr \<lparr>videoId = js ''xyz789'', exists = True,
             videoRecord = recordOf (js ''Hello world''),
             keywords' = Some [js ''offer''], videoFileName = None\<rparr>, world0)
   \<and> calls (snd (downloadVideoStep (libs formats0 [] JNull)
         (cachedWith (recordOf (js ''Hello world''))) world0)) = []"
proof -
  have c: "exists (cachedWith (recordOf (js ''Hello world'')))"
    by (simp add: cachedWith_def)
  show ?thesis
    using cached_acquisition_skips_download [OF c, of "libs formats0 [] JNull" world0]
    by (simp add: cachedWith_def world0_def)
qed








lemma downloadVideoStep_fresh:
  "\<not> exists inputData \<Longrightarrow>
   fst (downloadVideoStep e inputData w) =
     map_sum (\<lambda>err. err)
       (\<lambda>filePath. \<lparr>videoId = videoId inputData, exists = False, videoRecord = JUndefined,
          keywords' = keywords' inputData, videoFileName = Some filePath\<rparr>)
       (fst (downloadVideo e (videoId inputData) w))
   \<and> snd (downloadVideoStep e inputData w) = snd (downloadVideo e (videoId inputData) w)"
  by (simp add: downloadVideoStep_def split: prod.splits sum.splits)


lemma formats0_best:
  "bestAudioFormat formats0 =
     Inr \<lparr>hasAudio = True, hasVideo = False, audioBitrate = Some 160,
           container = Some (js ''mp4'')\<rparr>"
  by (simp add: bestAudioFormat_def audioFormats_def formats0_def array_sort_def bitrateOrZero_def)

lemmas run_defs = libs_def world0_def fresh0_def formats0_best downloadVideoStep_def
  downloadVideo_def getTranscriptStep_def resolveTranscript_def getTranscript_def
  validateTranscript_def Let_def request_def ensureDir_def writeFileSync_def mkdirSync_def
  unlinkSync_def existsSync_def isDirectory_def parent_def ancestors_def resolve_def walk_def
  sanitizeTitle_def js_def isWord_def isSpace_def whiteSpace_def lineTerminator_def trim_def

lemma fresh_download:
  "downloadVideoStep (libs formats0 spoken response) fresh0 world0 =
     (Inr \<lparr>videoId = js ''abc123'', exists = False, videoRecord = JUndefined,
            keywords' = None, videoFileName = Some (js ''video/Demo_1_abc123.mp4'')\<rparr>,
      \<lparr>files = [resolve (js ''video/Demo_1_abc123.mp4'') \<mapsto> Audio [1, 2, 3]],
       dirs = {resolve (js ''./video/'')},
       calls = [GetInfo (js ''https://www.youtube.com/watch?v=abc123''),
                AudioStream (js ''https://www.youtube.com/watch?v=abc123'')],
       clock = js ''2025-01-01T00:00:00.000Z''\<rparr>)"
  by (simp add: run_defs)

text \<open>
  The same download for the video id \<open>a/b\<close> is stopped by the file system: the
  directory \<open>./video/Demo_1_a\<close> is not there.
\<close>

lemma download_needs_directory:
  "fst (downloadVideoStep (libs formats0 spoken response) (fresh0\<lparr>videoId := js ''a/b''\<rparr>)
     world0) = Inl FsError"
  by (simp add: run_defs)


lemma getTranscript_calls:
  "calls (snd (getTranscript e f w)) = calls w @ [TranscribeFile f]"
  by (auto simp: getTranscript_def Let_def request_def split: sum.splits option.splits
      dest!: calls_kept)

lemma resolveTranscript_cache:
  assumes "exists inputData" and "truthy (videoRecord inputData)"
  shows "\<exists>t f. getProp (videoRecord inputData) (js ''fullTranscript'') = Inr t
     \<and> getProp (videoRecord inputData) (js ''transcriptFileName'') = Inr f
     \<and> resolveTranscript e inputData w = (Inr (t, if truthy f then f else JStr [], True), w)"
  using assms by (cases "videoRecord inputData") (simp_all add: resolveTranscript_def)

lemma resolveTranscript_fresh:
  assumes "\<not> (exists inputData \<and> truthy (videoRecord inputData))"
  shows "resolveTranscript e inputData w =
     (case videoFileName inputData of
        None \<Rightarrow> (Inl MissingInputFile, w)
      | Some name \<Rightarrow>
          if name = [] then (Inl MissingInputFile, w)
          else (case getTranscript e name w of
                  (Inl err, w') \<Rightarrow> (Inl err, w')
                | (Inr (t, f, d), w') \<Rightarrow> (Inr (JStr t, JStr f, d), w')))"
  using assms by (auto simp: resolveTranscript_def)

lemma getTranscriptStep_world:
  "snd (getTranscriptStep e inputData w) = snd (resolveTranscript e inputData w)"
  by (simp add: getTranscriptStep_def split: prod.splits sum.splits)

lemma resolveTranscript_calls:
  "calls (snd (resolveTranscript e inputData w)) =
     (if exists inputData \<and> truthy (videoRecord inputData) then calls w
      else case videoFileName inputData of
             None \<Rightarrow> calls w
           | Some name \<Rightarrow> if name = [] then calls w else calls w @ [TranscribeFile name])"
proof (cases "exists inputData \<and> truthy (videoRecord inputData)")
  case True
  then show ?thesis
    using resolveTranscript_cache [of inputData e w] by auto
next
  case False
  show ?thesis
    using getTranscript_calls [of e _ w]
    by (simp add: resolveTranscript_fresh [OF False] False split: option.splits prod.splits sum.splits)
       (metis snd_conv)
qed

text \<open>
  Claim C7.  Off the cache path, a null \<open>videoFileName\<close> makes the transcription step
  fail with MissingInputFile and leave the world as it was, so before any request to the
  transcription provider; and whenever the step does send a request to that provider, a
  non-null, non-empty file name was supplied, the request is for that file, and the input
  was off the cache path.
\<close>

theorem missing_input_file:
  "(\<not> (exists inputData \<and> truthy (videoRecord inputData)) \<and> videoFileName inputData = None \<longrightarrow>
      getTranscriptStep e inputData w = (Inl MissingInputFile, w))
   \<and> (\<forall>f. TranscribeFile f \<in> set (calls (snd (getTranscriptStep e inputData w)))
          \<and> TranscribeFile f \<notin> set (calls w) \<longrightarrow>
        videoFileName inputData = Some f \<and> f \<noteq> []
        \<and> \<not> (exists inputData \<and> truthy (videoRecord inputData)))"
proof (intro conjI impI allI)
  assume "\<not> (exists inputData \<and> truthy (videoRecord inputData)) \<and> videoFileName inputData = None"
  then show "getTranscriptStep e inputData w = (Inl MissingInputFile, w)"
    by (simp add: getTranscriptStep_def resolveTranscript_fresh)
next
  fix f
  assume "TranscribeFile f \<in> set (calls (snd (getTranscriptStep e inputData w)))
          \<and> TranscribeFile f \<notin> set (calls w)"
  then have *: "TranscribeFile f \<in> set (calls (snd (resolveTranscript e inputData w)))"
    "TranscribeFile f \<notin> set (calls w)"
    by (simp_all add: getTranscriptStep_world)
  then show "videoFileName inputData = Some f"
    by (auto simp: resolveTranscript_calls split: if_splits option.splits)
  from * show "f \<noteq> []"
    by (auto simp: resolveTranscript_calls split: if_splits option.splits)
  from * show "\<not> (exists inputData \<and> truthy (videoRecord inputData))"
    by (auto simp: resolveTranscript_calls split: if_splits option.splits)
qed

theorem missing_input_file_witness:
  "getTranscriptStep (libs formats0 (js ''Hello world'') JNull) (downloadedWith False JNull None) world0
     = (Inl MissingInputFile, world0)
   \<and> TranscribeFile (js ''video/Demo_1_xyz789.mp4'')
       \<in> set (calls (snd (getTranscriptStep (libs formats0 (js ''Hello world'') JNull)
            (downloadedWith False JNull (Some (js ''video/Demo_1_xyz789.mp4''))) world0)))
   \<and> videoFileName (downloadedWith False JNull (Some (js ''video/Demo_1_xyz789.mp4'')))
       = Some (js ''video/Demo_1_xyz789.mp4'')"
proof -
  let ?e = "libs formats0 (js ''Hello world'') JNull"
  let ?f = "js ''video/Demo_1_xyz789.mp4''"
  have A: "getTranscriptStep ?e (downloadedWith False JNull None) world0
      = (Inl MissingInputFile, world0)"
    using missing_input_file [of "downloadedWith False JNull None" ?e world0]
    by (simp add: downloadedWith_def)
  have B: "TranscribeFile ?f
      \<in> set (calls (snd (getTranscriptStep ?e (downloadedWith False JNull (Some ?f)) world0)))"
    by (simp add: getTranscriptStep_world resolveTranscript_calls downloadedWith_def js_def)
  have "TranscribeFile ?f \<notin> set (calls world0)"
    by (simp add: world0_def)
  with B have C: "videoFileName (downloadedWith False JNull (Some ?f)) = Some ?f"
    using missing_input_file [of "downloadedWith False JNull (Some ?f)" ?e world0]
    by blast
  from A B C show ?thesis by blast
qed

text \<open>
  Claim C9.  With \<open>exists\<close> true and the prior record null or absent, acquisition skips
  the download and hands on \<open>videoFileName = null\<close>; the transcription step does not
  take the cache path (it resolves the transcript as it would with \<open>exists\<close> false),
  and fails with MissingInputFile, and so does the workflow, the world unchanged.
\<close>

theorem existence_flag_without_record:
  assumes "exists inputData"
    and "videoRecord inputData = JNull \<or> videoRecord inputData = JUndefined"
  shows "\<exists>downloaded. downloadVideoStep e inputData w = (Inr downloaded, w)
     \<and> videoFileName downloaded = None
     \<and> exists downloaded \<and> videoRecord downloaded = videoRecord inputData
     \<and> resolveTranscript e downloaded w = resolveTranscript e (downloaded\<lparr>exists := False\<rparr>) w
     \<and> getTranscriptStep e downloaded w = (Inl MissingInputFile, w)
     \<and> youtubeVSLWorkflow e inputData w = (Inl MissingInputFile, w)"
proof -
  let ?d = "\<lparr>videoId = videoId inputData, exists = True,
              videoRecord = videoRecord inputData, keywords' = keywords' inputData,
              videoFileName = None\<rparr>"
  have d: "downloadVideoStep e inputData w = (Inr ?d, w)"
    using assms(1) by (simp add: downloadVideoStep_def)
  have falsy: "\<not> truthy (videoRecord inputData)"
    using assms(2) by auto
  have r: "resolveTranscript e ?d w = resolveTranscript e (?d\<lparr>exists := False\<rparr>) w"
    using falsy by (simp add: resolveTranscript_def)
  have t: "getTranscriptStep e ?d w = (Inl MissingInputFile, w)"
    using falsy by (simp add: getTranscriptStep_def resolveTranscript_def)
  have "youtubeVSLWorkflow e inputData w = (Inl MissingInputFile, w)"
    by (simp add: youtubeVSLWorkflow_def d t)
  with d r t show ?thesis
    by (intro exI [of _ ?d]) simp
qed


theorem existence_flag_without_record_witness:
  "exists (cachedWith JNull) \<and> videoRecord (cachedWith JNull) = JNull
   \<and> fst (downloadVideoStep (libs formats0 (js ''Hello world'') JNull) (cachedWith JNull) world0)
       = Inr (downloadedWith True JNull None\<lparr>keywords' := Some [js ''offer'']\<rparr>)
   \<and> youtubeVSLWorkflow (libs formats0 (js ''Hello world'') JNull) (cachedWith JNull) world0
       = (Inl MissingInputFile, world0)"
proof -
  let ?e = "libs formats0 (js ''Hello world'') JNull"
  have h: "exists (cachedWith JNull)"
    "videoRecord (cachedWith JNull) = JNull \<or> videoRecord (cachedWith JNull) = JUndefined"
    by (simp_all add: cachedWith_def)
  from existence_flag_without_record [OF h, of ?e world0]
  have "youtubeVSLWorkflow ?e (cachedWith JNull) world0 = (Inl MissingInputFile, world0)"
    by blast
  moreover have "fst (downloadVideoStep ?e (cachedWith JNull) world0)
       = Inr (downloadedWith True JNull None\<lparr>keywords' := Some [js ''offer'']\<rparr>)"
    by (simp add: downloadVideoStep_def cachedWith_def downloadedWith_def)
  ultimately show ?thesis
    using h(1) by (simp add: cachedWith_def)
qed

lemma validateTranscript_Inr:
  "validateTranscript t = Inr s \<Longrightarrow> t = JStr s \<and> 0 < length (trim s)"
  by (cases t) (auto simp: validateTranscript_def split: if_splits)

lemma validateTranscript_string:
  "validateTranscript (JStr s) = (if length (trim s) = 0 then Inl EmptyTranscript else Inr s)"
  by (auto simp: validateTranscript_def trim_def)

lemma validateTranscript_falsy: "\<not> truthy t \<Longrightarrow> validateTranscript t = Inl EmptyTranscript"
  by (simp add: validateTranscript_def)

lemma getTranscriptStep_Inr:
  assumes "getTranscriptStep e inputData w = (Inr out, w')"
  shows "\<exists>f d. resolveTranscript e inputData w = (Inr (JStr (transcript out), f, d), w')
     \<and> 0 < length (trim (transcript out)) \<and> transcriptFileName out = f
     \<and> videoFileDeleted out = d \<and> videoId out = videoId inputData"
proof -
  obtain r w1 where r: "resolveTranscript e inputData w = (r, w1)"
    by (cases "resolveTranscript e inputData w")
  show ?thesis
  proof (cases r)
    case (Inl err)
    then show ?thesis
      using assms r by (simp add: getTranscriptStep_def)
  next
    case (Inr x)
    obtain t f d where x: "x = (t, f, d)" by (cases x)
    show ?thesis
    proof (cases "validateTranscript t")
      case (Inl err)
      then show ?thesis
        using assms r Inr x by (simp add: getTranscriptStep_def)
    next
      case (Inr s)
      from validateTranscript_Inr [OF Inr] have "t = JStr s" "0 < length (trim s)"
        by simp_all
      then show ?thesis
        using assms r \<open>r = Inr x\<close> x Inr by (auto simp: getTranscriptStep_def)
    qed
  qed
qed

lemma downloadVideo_calls:
  "\<exists>cs. calls (snd (downloadVideo e v w)) = calls w @ cs \<and> (\<forall>t. GenerateObject t \<notin> set cs)"
  by (auto simp: downloadVideo_def Let_def request_def split: sum.splits option.splits
      dest!: calls_kept)

lemma downloadVideoStep_calls:
  "\<exists>cs. calls (snd (downloadVideoStep e inputData w)) = calls w @ cs
     \<and> (\<forall>t. GenerateObject t \<notin> set cs)"
proof (cases "exists inputData")
  case True
  then show ?thesis by (simp add: downloadVideoStep_def)
next
  case False
  then show ?thesis
    using downloadVideo_calls [of e "videoId inputData" w]
    by (simp add: downloadVideoStep_fresh)
qed

lemma getTranscriptStep_calls:
  "\<exists>cs. calls (snd (getTranscriptStep e inputData w)) = calls w @ cs
     \<and> (\<forall>t. GenerateObject t \<notin> set cs)"
  by (simp add: getTranscriptStep_world resolveTranscript_calls split: option.splits)

lemma extractVSLStep_calls:
  "calls (snd (extractVSLStep e inputData w)) = calls w @ [GenerateObject (transcript inputData)]"
  by (simp add: extractVSLStep_def generateObject_def Let_def request_def
      split: sum.splits option.splits prod.splits)

lemma saveVSLStep_calls: "calls (snd (saveVSLStep e inputData w)) = calls w"
  by (auto simp: saveVSLStep_def Let_def split: sum.splits dest!: calls_kept)

lemma workflow_generate:
  assumes "GenerateObject t \<in> set (calls (snd (youtubeVSLWorkflow e start w)))"
  shows "GenerateObject t \<in> set (calls w) \<or> 0 < length (trim t)"
proof -
  obtain r1 w1 where s1: "downloadVideoStep e start w = (r1, w1)"
    by (cases "downloadVideoStep e start w")
  from downloadVideoStep_calls [of e start w] s1
  have c1: "GenerateObject t \<in> set (calls w1) \<Longrightarrow> GenerateObject t \<in> set (calls w)"
    by auto
  show ?thesis
  proof (cases r1)
    case (Inl err)
    then show ?thesis
      using assms s1 c1 by (simp add: youtubeVSLWorkflow_def)
  next
    case (Inr downloaded)
    note d = this
    obtain r2 w2 where s2: "getTranscriptStep e downloaded w1 = (r2, w2)"
      by (cases "getTranscriptStep e downloaded w1")
    from getTranscriptStep_calls [of e downloaded w1] s2
    have c2: "GenerateObject t \<in> set (calls w2) \<Longrightarrow> GenerateObject t \<in> set (calls w1)"
      by auto
    show ?thesis
    proof (cases r2)
      case (Inl err)
      then show ?thesis
        using assms s1 d s2 c1 c2 by (simp add: youtubeVSLWorkflow_def)
    next
      case (Inr transcribed)
      note tr = this
      from getTranscriptStep_Inr [of e downloaded w1 transcribed w2] s2 tr
      have nonempty: "0 < length (trim (transcript transcribed))"
        by blast
      obtain r3 w3 where s3: "extractVSLStep e transcribed w2 = (r3, w3)"
        by (cases "extractVSLStep e transcribed w2")
      from extractVSLStep_calls [of e transcribed w2] s3
      have c3: "calls w3 = calls w2 @ [GenerateObject (transcript transcribed)]"
        by simp
      have "calls (snd (youtubeVSLWorkflow e start w)) = calls w3"
        using s1 d s2 tr s3 saveVSLStep_calls [of e _ w3]
        by (cases r3) (simp_all add: youtubeVSLWorkflow_def)
      then have "GenerateObject t \<in> set (calls w2) \<or> t = transcript transcribed"
        using assms c3 by auto
      then show ?thesis
        using c1 c2 nonempty by blast
    qed
  qed
qed

text \<open>
  Claim C2.  On the cache path and on the fresh path alike: a transcript returned by the
  transcription step has a non-empty trim; when the transcript resolved on either path is
  missing, empty or only whitespace, the step fails with EmptyTranscript; when the step
  fails the workflow ends with that error and no request has gone to the generative model;
  and every transcript the workflow sends to the generative model has a non-empty trim.
\<close>

theorem empty_transcript_halts:
  "(\<forall>out w'. getTranscriptStep e inputData w = (Inr out, w') \<longrightarrow>
       0 < length (trim (transcript out)))
   \<and> (\<forall>t f d w'. resolveTranscript e inputData w = (Inr (t, f, d), w')
         \<and> (t = JUndefined \<or> t = JNull \<or> (\<exists>s. t = JStr s \<and> length (trim s) = 0)) \<longrightarrow>
       getTranscriptStep e inputData w = (Inl EmptyTranscript, w'))
   \<and> (\<forall>downloaded w1 err w2. downloadVideoStep e start w = (Inr downloaded, w1)
         \<and> getTranscriptStep e downloaded w1 = (Inl err, w2) \<longrightarrow>
       youtubeVSLWorkflow e start w = (Inl err, w2)
       \<and> (\<forall>t. GenerateObject t \<in> set (calls w2) \<longrightarrow> GenerateObject t \<in> set (calls w)))
   \<and> (\<forall>t. GenerateObject t \<in> set (calls (snd (youtubeVSLWorkflow e start w))) \<longrightarrow>
       GenerateObject t \<in> set (calls w) \<or> 0 < length (trim t))"
proof (intro conjI allI impI)
  fix out w'
  assume "getTranscriptStep e inputData w = (Inr out, w')"
  from getTranscriptStep_Inr [OF this] show "0 < length (trim (transcript out))"
    by blast
next
  fix t f d w'
  assume a: "resolveTranscript e inputData w = (Inr (t, f, d), w')
         \<and> (t = JUndefined \<or> t = JNull \<or> (\<exists>s. t = JStr s \<and> length (trim s) = 0))"
  then have "validateTranscript t = Inl EmptyTranscript"
    by (auto simp: validateTranscript_string validateTranscript_falsy)
  then show "getTranscriptStep e inputData w = (Inl EmptyTranscript, w')"
    using a by (simp add: getTranscriptStep_def)
next
  fix downloaded w1 err w2
  assume a: "downloadVideoStep e start w = (Inr downloaded, w1)
         \<and> getTranscriptStep e downloaded w1 = (Inl err, w2)"
  then show "youtubeVSLWorkflow e start w = (Inl err, w2)"
    by (simp add: youtubeVSLWorkflow_def)
  fix t
  assume g: "GenerateObject t \<in> set (calls w2)"
  from downloadVideoStep_calls [of e start w] getTranscriptStep_calls [of e downloaded w1] a g
  show "GenerateObject t \<in> set (calls w)"
    by auto
next
  fix t
  assume "GenerateObject t \<in> set (calls (snd (youtubeVSLWorkflow e start w)))"
  then show "GenerateObject t \<in> set (calls w) \<or> 0 < length (trim t)"
    by (rule workflow_generate)
qed

lemma cached_hello:
  "getTranscriptStep e (downloadedWith True (recordOf (js ''Hello world'')) None) world0 =
     (Inr \<lparr>videoId = js ''xyz789'', transcript = js ''Hello world'',
            transcriptFileName = JStr (js ''transcription/Demo_xyz789_transcript.txt''),
            videoFileDeleted = True\<rparr>, world0)"
  by (simp add: getTranscriptStep_def resolveTranscript_def validateTranscript_def
      downloadedWith_def recordOf_def js_def trim_def isSpace_def whiteSpace_def
      lineTerminator_def)

lemma cached_blank:
  "resolveTranscript e (downloadedWith True (recordOf (js ''   '')) None) world0 =
     (Inr (JStr (js ''   ''), JStr (js ''transcription/Demo_xyz789_transcript.txt''), True),
      world0)"
  by (simp add: resolveTranscript_def downloadedWith_def recordOf_def js_def)

lemma trim_blank: "length (trim (js ''   '')) = 0" "length (trim (js '' '')) = 0"
  by (simp_all add: js_def trim_def isSpace_def whiteSpace_def lineTerminator_def)

theorem empty_transcript_halts_witness:
  "getTranscriptStep (libs formats0 (js '' '') JNull)
       (downloadedWith True (recordOf (js ''   '')) None) world0
     = (Inl EmptyTranscript, world0)
   \<and> fst (youtubeVSLWorkflow (libs formats0 (js '' '') JNull) fresh0 world0)
       = Inl EmptyTranscript
   \<and> GenerateObject (js '' '')
       \<notin> set (calls (snd (youtubeVSLWorkflow (libs formats0 (js '' '') JNull) fresh0 world0)))
   \<and> 0 < length (trim (js ''Hello world''))"
proof -
  let ?e = "libs formats0 (js '' '') JNull"
  let ?d = "\<lparr>videoId = js ''abc123'', exists = False, videoRecord = JUndefined,
            keywords' = None, videoFileName = Some (js ''video/Demo_1_abc123.mp4'')\<rparr>"
  let ?w1 = "\<lparr>files = [resolve (js ''video/Demo_1_abc123.mp4'') \<mapsto> Audio [1, 2, 3]],
       dirs = {resolve (js ''./video/'')},
       calls = [GetInfo (js ''https://www.youtube.com/watch?v=abc123''),
                AudioStream (js ''https://www.youtube.com/watch?v=abc123'')],
       clock = js ''2025-01-01T00:00:00.000Z''\<rparr>"
  note blank = empty_transcript_halts [of ?e "downloadedWith True (recordOf (js ''   '')) None"
      world0 fresh0]
  note hello = empty_transcript_halts [of ?e
      "downloadedWith True (recordOf (js ''Hello world'')) None" world0 fresh0]
  have "resolveTranscript ?e (downloadedWith True (recordOf (js ''   '')) None) world0 =
      (Inr (JStr (js ''   ''), JStr (js ''transcription/Demo_xyz789_transcript.txt''), True),
       world0)
     \<and> (JStr (js ''   '') = JUndefined \<or> JStr (js ''   '') = JNull
        \<or> (\<exists>s. JStr (js ''   '') = JStr s \<and> length (trim s) = 0))"
    using cached_blank [of ?e] trim_blank(1) by simp
  then have A: "getTranscriptStep ?e (downloadedWith True (recordOf (js ''   '')) None) world0
      = (Inl EmptyTranscript, world0)"
    by (rule blank [THEN conjunct2, THEN conjunct1, rule_format])
  have t: "getTranscriptStep ?e ?d ?w1 = (Inl EmptyTranscript, snd (getTranscriptStep ?e ?d ?w1))"
    by (rule prod_eqI) (simp_all add: run_defs)
  have "youtubeVSLWorkflow ?e fresh0 world0
      = (Inl EmptyTranscript, snd (getTranscriptStep ?e ?d ?w1))"
    by (rule blank [THEN conjunct2, THEN conjunct2, THEN conjunct1, rule_format,
          OF conjI, OF fresh_download t, THEN conjunct1])
  then have B: "fst (youtubeVSLWorkflow ?e fresh0 world0) = Inl EmptyTranscript"
    by (simp only: fst_conv)
  have no: "\<not> (GenerateObject (js '' '') \<in> set (calls world0) \<or> 0 < length (trim (js '' '')))"
    by (simp add: trim_blank world0_def)
  have C: "GenerateObject (js '' '')
       \<notin> set (calls (snd (youtubeVSLWorkflow ?e fresh0 world0)))"
  proof
    assume "GenerateObject (js '' '')
       \<in> set (calls (snd (youtubeVSLWorkflow ?e fresh0 world0)))"
    then have "GenerateObject (js '' '') \<in> set (calls world0) \<or> 0 < length (trim (js '' ''))"
      by (rule blank [THEN conjunct2, THEN conjunct2, THEN conjunct2, rule_format])
    with no show False by (rule notE)
  qed
  have "0 < length (trim (transcript \<lparr>videoId = js ''xyz789'', transcript = js ''Hello world'',
            transcriptFileName = JStr (js ''transcription/Demo_xyz789_transcript.txt''),
            videoFileDeleted = True\<rparr>))"
    by (rule hello [THEN conjunct1, rule_format, OF cached_hello])
  then have D: "0 < length (trim (js ''Hello world''))"
    by (simp only: transcriptOut.simps)
  from A B C D show ?thesis by (intro conjI)
qed

text \<open>
  Claim C4, amended.  With \<open>exists\<close> true and a prior record that is truthy (every
  object is), the step takes the cache path: it reads \<open>fullTranscript\<close> and
  \<open>transcriptFileName\<close> from the record and leaves the world as it was, so no request
  goes to the transcription provider.  If the prior transcript is a string with a non-empty
  trim, the step returns it verbatim, with the prior file name verbatim (the empty string
  when the record has none) and \<open>videoFileDeleted = true\<close>.  Otherwise the step fails:
  with EmptyTranscript when the prior transcript is missing, empty or only whitespace.
\<close>

theorem cache_path_reuses_record:
  assumes "exists inputData" and "truthy (videoRecord inputData)"
  shows "\<exists>t f. getProp (videoRecord inputData) (js ''fullTranscript'') = Inr t
     \<and> getProp (videoRecord inputData) (js ''transcriptFileName'') = Inr f
     \<and> snd (getTranscriptStep e inputData w) = w
     \<and> (\<forall>s. t = JStr s \<and> 0 < length (trim s) \<longrightarrow>
           fst (getTranscriptStep e inputData w) =
             Inr \<lparr>videoId = videoId inputData, transcript = s,
                   transcriptFileName = (if truthy f then f else JStr []),
                   videoFileDeleted = True\<rparr>)
     \<and> ((\<forall>s. t = JStr s \<longrightarrow> length (trim s) = 0) \<longrightarrow>
           fst (getTranscriptStep e inputData w) =
             Inl (if (\<exists>s. t = JStr s) \<or> \<not> truthy t then EmptyTranscript else TypeError))"
proof -
  from resolveTranscript_cache [OF assms, of e w] obtain t f where
    tf: "getProp (videoRecord inputData) (js ''fullTranscript'') = Inr t"
        "getProp (videoRecord inputData) (js ''transcriptFileName'') = Inr f"
        "resolveTranscript e inputData w = (Inr (t, if truthy f then f else JStr [], True), w)"
    by blast
  have 1: "snd (getTranscriptStep e inputData w) = w"
    by (simp add: getTranscriptStep_world tf(3))
  have 2: "fst (getTranscriptStep e inputData w) =
             Inr \<lparr>videoId = videoId inputData, transcript = s,
                   transcriptFileName = (if truthy f then f else JStr []),
                   videoFileDeleted = True\<rparr>"
    if "t = JStr s \<and> 0 < length (trim s)" for s
    using that by (simp add: getTranscriptStep_def tf(3) validateTranscript_string)
  have 3: "fst (getTranscriptStep e inputData w) =
             Inl (if (\<exists>s. t = JStr s) \<or> \<not> truthy t then EmptyTranscript else TypeError)"
    if "\<forall>s. t = JStr s \<longrightarrow> length (trim s) = 0"
    using that
    by (cases t) (simp_all add: getTranscriptStep_def tf(3) validateTranscript_def)
  from tf(1,2) 1 2 3 show ?thesis by blast
qed

theorem cache_path_reuses_record_witness:
  "exists (downloadedWith True (recordOf (js ''Hello world'')) None)
   \<and> truthy (videoRecord (downloadedWith True (recordOf (js ''Hello world'')) None))
   \<and> getTranscriptStep (libs formats0 (js ''other'') JNull)
        (downloadedWith True (recordOf (js ''Hello world'')) None) world0 =
       (Inr \<lparr>videoId = js ''xyz789'', transcript = js ''Hello world'',
              transcriptFileName = JStr (js ''transcription/Demo_xyz789_transcript.txt''),
              videoFileDeleted = True\<rparr>, world0)"
proof -
  let ?e = "libs formats0 (js ''other'') JNull"
  let ?i = "downloadedWith True (recordOf (js ''Hello world'')) None"
  have h: "exists ?i" "truthy (videoRecord ?i)"
    by (simp_all add: downloadedWith_def recordOf_def)
  have p: "getProp (videoRecord ?i) (js ''fullTranscript'') = Inr (JStr (js ''Hello world''))"
    "getProp (videoRecord ?i) (js ''transcriptFileName'')
       = Inr (JStr (js ''transcription/Demo_xyz789_transcript.txt''))"
    by (simp_all add: downloadedWith_def recordOf_def js_def)
  have n: "0 < length (trim (js ''Hello world''))"
    by (simp add: js_def trim_def isSpace_def whiteSpace_def lineTerminator_def)
  from cache_path_reuses_record [OF h, of ?e world0] p n
  have "snd (getTranscriptStep ?e ?i world0) = world0
      \<and> fst (getTranscriptStep ?e ?i world0) =
          Inr \<lparr>videoId = videoId ?i, transcript = js ''Hello world'',
                transcriptFileName = JStr (js ''transcription/Demo_xyz789_transcript.txt''),
                videoFileDeleted = True\<rparr>"
    by (auto simp: js_def)
  then have "getTranscriptStep ?e ?i world0 =
       (Inr \<lparr>videoId = js ''xyz789'', transcript = js ''Hello world'',
              transcriptFileName = JStr (js ''transcription/Demo_xyz789_transcript.txt''),
              videoFileDeleted = True\<rparr>, world0)"
    by (intro prod_eqI) (simp_all add: downloadedWith_def)
  with h show ?thesis by blast
qed

text \<open>
  The claim as first stated, that every such input gets its prior transcript back, fails
  for a prior record whose transcript is three spaces: the step ends in EmptyTranscript.
\<close>

theorem cache_path_blank_counterexample:
  "exists (downloadedWith True (recordOf (js ''   '')) None)
   \<and> videoRecord (downloadedWith True (recordOf (js ''   '')) None) \<noteq> JNull
   \<and> getTranscriptStep (libs formats0 (js ''other'') JNull)
        (downloadedWith True (recordOf (js ''   '')) None) world0
       = (Inl EmptyTranscript, world0)"
proof -
  have "exists (downloadedWith True (recordOf (js ''   '')) None)"
    "videoRecord (downloadedWith True (recordOf (js ''   '')) None) \<noteq> JNull"
    by (simp_all add: downloadedWith_def recordOf_def)
  moreover have "getTranscriptStep (libs formats0 (js ''other'') JNull)
        (downloadedWith True (recordOf (js ''   '')) None) world0
       = (Inl EmptyTranscript, world0)"
    by (simp add: getTranscriptStep_def cached_blank validateTranscript_string trim_blank)
  ultimately show ?thesis by simp
qed

lemma those_map_Some:
  "those (map p xs) = Some ys \<Longrightarrow>
   length ys = length xs \<and> (\<forall>i<length xs. p (xs ! i) = Some (ys ! i))"
proof (induction xs arbitrary: ys)
  case Nil
  then show ?case by simp
next
  case (Cons x xs)
  from Cons.prems obtain y ys' where
    y: "p x = Some y" "those (map p xs) = Some ys'" "ys = y # ys'"
    by (auto split: option.splits)
  from Cons.IH [OF y(2)] have
    ih: "length ys' = length xs" "\<forall>i<length xs. p (xs ! i) = Some (ys' ! i)"
    by simp_all
  show ?case
    using y ih by (auto simp: nth_Cons split: nat.splits)
qed

lemma z_object_Some: "z_object v = Some kvs \<Longrightarrow> v = JObj kvs"
  by (cases v) simp_all

lemma z_enum_Some: "z_enum vals v = Some a \<Longrightarrow> \<exists>s. v = JStr s \<and> (s, a) \<in> set vals"
  by (cases v) (auto dest: map_of_SomeD)

lemma z_number_Some:
  "z_number_min_max lo hi v = Some n \<Longrightarrow> v = JNum n \<and> lo \<le> n \<and> n \<le> hi"
  by (cases v) (auto split: if_splits)

lemma z_array_Some: "z_array p v = Some ys \<Longrightarrow> \<exists>xs. v = JArr xs \<and> those (map p xs) = Some ys"
  by (cases v) simp_all

lemma vslSectionSchema_Some:
  assumes "vslSectionSchema v = Some sec"
  shows "\<exists>kvs p t. v = JObj kvs
     \<and> field kvs ''purpose'' = JStr p \<and> (p, purpose sec) \<in> set purpose_values
     \<and> field kvs ''tone'' = JStr t \<and> (t, tone sec) \<in> set tone_values"
  using assms
  by (auto simp: vslSectionSchema_def split: Option.bind_splits
      dest!: z_object_Some z_enum_Some)

lemma effectivenessSchema_Some:
  assumes "effectivenessSchema v = Some eff"
  shows "\<exists>kvs. v = JObj kvs \<and> field kvs ''overallRating'' = JNum (overallRating eff)
     \<and> 1 \<le> overallRating eff \<and> overallRating eff \<le> 10"
  using assms
  by (auto simp: effectivenessSchema_def split: Option.bind_splits
      dest!: z_object_Some z_number_Some)

lemma vslScriptSchema_Some:
  assumes "vslScriptSchema v = Some s"
  shows "\<exists>kvs secs. v = JObj kvs \<and> field kvs ''sections'' = JArr secs
     \<and> those (map vslSectionSchema secs) = Some (sections s)
     \<and> effectivenessSchema (field kvs ''effectiveness'') = Some (effectiveness s)"
  using assms
  by (auto simp: vslScriptSchema_def split: Option.bind_splits
      dest!: z_object_Some z_array_Some)

lemma accepted_conforms:
  assumes "vslScriptSchema response = Some s"
  shows "responseConforms response
     \<and> (\<exists>secs. sectionsOf response = Some secs \<and> length secs = length (sections s)
          \<and> (\<forall>i<length secs. \<exists>kvs p t. secs ! i = JObj kvs
                \<and> field kvs ''purpose'' = JStr p
                \<and> (p, purpose (sections s ! i)) \<in> set purpose_values
                \<and> field kvs ''tone'' = JStr t
                \<and> (t, tone (sections s ! i)) \<in> set tone_values))
     \<and> ratingOf response = JNum (overallRating (effectiveness s))
     \<and> 1 \<le> overallRating (effectiveness s) \<and> overallRating (effectiveness s) \<le> 10"
proof -
  from vslScriptSchema_Some [OF assms] obtain kvs secs where
    r: "response = JObj kvs" "field kvs ''sections'' = JArr secs"
       "those (map vslSectionSchema secs) = Some (sections s)"
       "effectivenessSchema (field kvs ''effectiveness'') = Some (effectiveness s)"
    by blast
  from those_map_Some [OF r(3)] have
    len: "length (sections s) = length secs"
    and each: "\<forall>i<length secs. vslSectionSchema (secs ! i) = Some (sections s ! i)"
    by simp_all
  have secs: "\<exists>kvs p t. secs ! i = JObj kvs
       \<and> field kvs ''purpose'' = JStr p \<and> (p, purpose (sections s ! i)) \<in> set purpose_values
       \<and> field kvs ''tone'' = JStr t \<and> (t, tone (sections s ! i)) \<in> set tone_values"
    if "i < length secs" for i
    using each that vslSectionSchema_Some [of "secs ! i" "sections s ! i"] by blast
  from effectivenessSchema_Some [OF r(4)] obtain ekvs where
    e: "field kvs ''effectiveness'' = JObj ekvs"
       "field ekvs ''overallRating'' = JNum (overallRating (effectiveness s))"
       "1 \<le> overallRating (effectiveness s)" "overallRating (effectiveness s) \<le> 10"
    by blast
  have so: "sectionsOf response = Some secs"
    by (simp add: r(1,2))
  have ro: "ratingOf response = JNum (overallRating (effectiveness s))"
    by (simp add: r(1) e(1,2))
  have "sectionConforms x" if "x \<in> set secs" for x
  proof -
    from that obtain i where i: "i < length secs" "x = secs ! i"
      by (auto simp: in_set_conv_nth)
    from secs [OF i(1)] obtain skvs p t where
      "x = JObj skvs" "field skvs ''purpose'' = JStr p"
      "(p, purpose (sections s ! i)) \<in> set purpose_values"
      "field skvs ''tone'' = JStr t" "(t, tone (sections s ! i)) \<in> set tone_values"
      using i(2) by auto
    then show ?thesis
      by (auto simp: image_iff intro!: bexI [of _ "(p, purpose (sections s ! i))"]
          bexI [of _ "(t, tone (sections s ! i))"])
  qed
  then have "list_all sectionConforms secs"
    by (simp add: list_all_iff)
  then have c: "responseConforms response"
    by (simp add: responseConforms_def so ro e(3,4))
  from c so len secs ro e(3,4) show ?thesis
    by auto
qed

lemma extractVSLStep_cases:
  assumes "model_response e (transcript inputData) = Inr response"
  shows "fst (extractVSLStep e inputData w) =
     (case vslScriptSchema response of
        None \<Rightarrow> Inl SchemaValidationError
      | Some s \<Rightarrow> Inr \<lparr>videoId = videoId inputData, transcript = transcript inputData,
            transcriptFileName = transcriptFileName inputData,
            videoFileDeleted = videoFileDeleted inputData, vslScript = s\<rparr>)"
  using assms
  by (simp add: extractVSLStep_def generateObject_def Let_def split: option.splits)

text \<open>
  Claim C1, amended.  Whenever the extraction step accepts the model's response, every
  section of the response has a purpose that is one of the 11 listed purpose values and a
  tone that is one of the 10 listed tone values, the rating is a number from 1 to 10, and
  the script handed on carries exactly those purposes, tones and rating.  A response that
  does not conform is rejected with SchemaValidationError.  The rating need not be an
  integer: the schema is \<open>z.number().min(1).max(10)\<close>.
\<close>

theorem schema_enforced:
  assumes "model_response e (transcript inputData) = Inr response"
  shows "(\<forall>out w'. extractVSLStep e inputData w = (Inr out, w') \<longrightarrow>
            responseConforms response
            \<and> (\<exists>secs. sectionsOf response = Some secs
                 \<and> length secs = length (sections (vslScript out))
                 \<and> (\<forall>i<length secs. \<exists>kvs p t. secs ! i = JObj kvs
                       \<and> field kvs ''purpose'' = JStr p
                       \<and> (p, purpose (sections (vslScript out) ! i)) \<in> set purpose_values
                       \<and> field kvs ''tone'' = JStr t
                       \<and> (t, tone (sections (vslScript out) ! i)) \<in> set tone_values))
            \<and> ratingOf response = JNum (overallRating (effectiveness (vslScript out)))
            \<and> 1 \<le> overallRating (effectiveness (vslScript out))
            \<and> overallRating (effectiveness (vslScript out)) \<le> 10)
     \<and> (\<not> responseConforms response \<longrightarrow>
           fst (extractVSLStep e inputData w) = Inl SchemaValidationError)
     \<and> length purpose_values = 11 \<and> distinct (map fst purpose_values)
     \<and> length tone_values = 10 \<and> distinct (map fst tone_values)"
proof (intro conjI allI impI)
  fix out w'
  assume run: "extractVSLStep e inputData w = (Inr out, w')"
  then have "fst (extractVSLStep e inputData w) = Inr out"
    by simp
  then have "vslScriptSchema response = Some (vslScript out)"
    unfolding extractVSLStep_cases [OF assms]
    by (auto split: option.splits)
  from accepted_conforms [OF this]
  show "responseConforms response"
    and "\<exists>secs. sectionsOf response = Some secs
                 \<and> length secs = length (sections (vslScript out))
                 \<and> (\<forall>i<length secs. \<exists>kvs p t. secs ! i = JObj kvs
                       \<and> field kvs ''purpose'' = JStr p
                       \<and> (p, purpose (sections (vslScript out) ! i)) \<in> set purpose_values
                       \<and> field kvs ''tone'' = JStr t
                       \<and> (t, tone (sections (vslScript out) ! i)) \<in> set tone_values)"
    and "ratingOf response = JNum (overallRating (effectiveness (vslScript out)))"
    and "1 \<le> overallRating (effectiveness (vslScript out))"
    and "overallRating (effectiveness (vslScript out)) \<le> 10"
    by blast+
next
  assume bad: "\<not> responseConforms response"
  have "vslScriptSchema response = None"
  proof (cases "vslScriptSchema response")
    case None
    then show ?thesis .
  next
    case (Some s)
    from accepted_conforms [OF this] bad show ?thesis by blast
  qed
  then show "fst (extractVSLStep e inputData w) = Inl SchemaValidationError"
    by (simp add: extractVSLStep_cases [OF assms])
next
  show "length purpose_values = 11" by (simp add: purpose_values_def)
  show "distinct (map fst purpose_values)" by (simp add: purpose_values_def js_def)
  show "length tone_values = 10" by (simp add: tone_values_def)
  show "distinct (map fst tone_values)" by (simp add: tone_values_def js_def)
qed


lemma response_parsed:
  "vslScriptSchema (responseOf [sectionJson ''hook'' ''urgent'',
       sectionJson ''call_to_action'' ''reassuring''] (JNum q)) =
     (if 1 \<le> q \<and> q \<le> 10
      then Some (scriptOf [sectionOf hook urgent, sectionOf call_to_action reassuring] q)
      else None)"
  by (simp add: vslScriptSchema_def effectivenessSchema_def vslSectionSchema_def
      timestampsSchema_def responseOf_def sectionJson_def scriptOf_def sectionOf_def
      field_def purpose_values_def tone_values_def js_def)

theorem schema_enforced_witness:
  "responseConforms (responseOf [sectionJson ''hook'' ''urgent'',
       sectionJson ''call_to_action'' ''reassuring''] (JNum 7))
   \<and> fst (extractVSLStep (libs [] [] (responseOf [sectionJson ''intro'' ''urgent''] (JNum 7)))
          transcribed0 world0) = Inl SchemaValidationError
   \<and> fst (extractVSLStep (libs [] [] (responseOf [sectionJson ''hook'' ''calm''] (JNum 7)))
          transcribed0 world0) = Inl SchemaValidationError
   \<and> fst (extractVSLStep (libs [] [] (responseOf [sectionJson ''hook'' ''urgent''] (JNum 11)))
          transcribed0 world0) = Inl SchemaValidationError
   \<and> fst (extractVSLStep (libs [] [] (responseOf [sectionJson ''hook'' ''urgent'']
            (JStr (js ''7'')))) transcribed0 world0) = Inl SchemaValidationError"
proof -
  let ?good = "responseOf [sectionJson ''hook'' ''urgent'',
       sectionJson ''call_to_action'' ''reassuring''] (JNum 7)"
  have m: "model_response (libs [] [] r) (transcript transcribed0) = Inr r" for r
    by (simp add: libs_def)
  have "fst (extractVSLStep (libs [] [] ?good) transcribed0 world0) =
      Inr \<lparr>videoId = videoId transcribed0, transcript = transcript transcribed0,
            transcriptFileName = transcriptFileName transcribed0,
            videoFileDeleted = videoFileDeleted transcribed0,
            vslScript = scriptOf [sectionOf hook urgent, sectionOf call_to_action reassuring] 7\<rparr>"
    by (simp add: extractVSLStep_cases [OF m] response_parsed)
  then have run: "extractVSLStep (libs [] [] ?good) transcribed0 world0 =
      (Inr \<lparr>videoId = videoId transcribed0, transcript = transcript transcribed0,
            transcriptFileName = transcriptFileName transcribed0,
            videoFileDeleted = videoFileDeleted transcribed0,
            vslScript = scriptOf [sectionOf hook urgent, sectionOf call_to_action reassuring] 7\<rparr>,
       snd (extractVSLStep (libs [] [] ?good) transcribed0 world0))"
    by (intro prod_eqI) simp_all
  have A: "responseConforms ?good"
    by (rule schema_enforced [OF m, of ?good world0, THEN conjunct1, rule_format, OF run,
          THEN conjunct1])
  have bad: "\<not> responseConforms (responseOf [sectionJson ''intro'' ''urgent''] (JNum 7))"
    "\<not> responseConforms (responseOf [sectionJson ''hook'' ''calm''] (JNum 7))"
    "\<not> responseConforms (responseOf [sectionJson ''hook'' ''urgent''] (JNum 11))"
    "\<not> responseConforms (responseOf [sectionJson ''hook'' ''urgent''] (JStr (js ''7'')))"
    by (simp_all add: responseConforms_def responseOf_def sectionJson_def field_def
        purpose_values_def tone_values_def js_def)
  note rej = schema_enforced [OF m, THEN conjunct2, THEN conjunct1, rule_format]
  from A rej [OF bad(1)] rej [OF bad(2)] rej [OF bad(3)] rej [OF bad(4)]
  show ?thesis by (intro conjI)
qed

text \<open>
  The claim as first stated, with an integer rating, fails: a response rated 7.5 is
  accepted and handed on with that rating.
\<close>

theorem fractional_rating_counterexample:
  "fst (extractVSLStep (libs [] [] (responseOf [sectionJson ''hook'' ''urgent'',
          sectionJson ''call_to_action'' ''reassuring''] (JNum (15 / 2)))) transcribed0 world0)
     = Inr \<lparr>videoId = js ''abc123'', transcript = js ''Hello world'',
             transcriptFileName = JStr (js ''transcription/Demo_abc123_transcript.txt''),
             videoFileDeleted = True,
             vslScript = scriptOf [sectionOf hook urgent, sectionOf call_to_action reassuring]
               (15 / 2)\<rparr>
   \<and> overallRating (effectiveness
        (scriptOf [sectionOf hook urgent, sectionOf call_to_action reassuring] (15 / 2))) \<notin> \<int>"
proof -
  have m: "model_response (libs [] [] r) (transcript transcribed0) = Inr r" for r
    by (simp add: libs_def)
  let ?r = "responseOf [sectionJson ''hook'' ''urgent'',
          sectionJson ''call_to_action'' ''reassuring''] (JNum (15 / 2))"
  have "fst (extractVSLStep (libs [] [] ?r) transcribed0 world0) =
      Inr \<lparr>videoId = videoId transcribed0, transcript = transcript transcribed0,
            transcriptFileName = transcriptFileName transcribed0,
            videoFileDeleted = videoFileDeleted transcribed0,
            vslScript = scriptOf [sectionOf hook urgent, sectionOf call_to_action reassuring]
              (15 / 2)\<rparr>"
    by (simp add: extractVSLStep_cases [OF m] response_parsed)
  then have A: "fst (extractVSLStep (libs [] [] ?r) transcribed0 world0)
     = Inr \<lparr>videoId = js ''abc123'', transcript = js ''Hello world'',
             transcriptFileName = JStr (js ''transcription/Demo_abc123_transcript.txt''),
             videoFileDeleted = True,
             vslScript = scriptOf [sectionOf hook urgent, sectionOf call_to_action reassuring]
               (15 / 2)\<rparr>"
    by (simp add: transcribed0_def)
  have "(15 / 2 :: rat) \<notin> \<int>"
    by simp
  then have B: "overallRating (effectiveness
        (scriptOf [sectionOf hook urgent, sectionOf call_to_action reassuring] (15 / 2))) \<notin> \<int>"
    by (simp add: scriptOf_def)
  from A B show ?thesis by (rule conjI)
qed

end
